theory Spec2Isabelle
  imports Main
begin

section \<open>Values of the JavaScript program\<close>

text \<open>
  The chatbot is three CommonJS modules: the Fliplet client (class \<open>FlipletAPI\<close> with
  \<open>truncateEntries\<close>), the tool catalog and dispatcher (\<open>executeTool\<close>) and the server
  (\<open>agentLoop\<close>, \<open>trimHistory\<close>). A payload of the backend is the result of \<open>res.json()\<close>,
  so it is a parsed JSON value. Numbers are kept to the integers: no function of the
  program computes with a number, it only tests one for being zero and compares a length
  with 50. A string is a list of characters, one per UTF-16 code unit, which is what
  \<open>length\<close> and \<open>slice\<close> count in JavaScript. An object is the list of its own properties
  in insertion order; \<open>map_of\<close> reads one.
\<close>

datatype json =
    JNull
  | JBool bool
  | JNum int
  | JStr string
  | JArr "json list"
  | JObj "(string \<times> json) list"

text \<open>
  What a JavaScript expression of the program can evaluate to: \<open>undefined\<close>, a parsed
  JSON value, or the built-in method \<open>Array.prototype.entries\<close>, which is what the member
  expression \<open>data.entries\<close> denotes when \<open>data\<close> is an array.
\<close>

datatype jsval =
    Undefined
  | Json json
  | ArrayProtoEntries

text \<open>The request paths of the client, each with the value its template literal interpolates.\<close>

datatype path =
    V1Apps jsval                 \<comment> \<open>\<open>/v1/apps/${id}\<close>\<close>
  | V1DataSourcesOfApp jsval     \<comment> \<open>\<open>/v1/data-sources?appId=${appId}\<close>\<close>
  | V1DataSource jsval           \<comment> \<open>\<open>/v1/data-sources/${id}\<close>\<close>
  | V1DataSourceData jsval       \<comment> \<open>\<open>/v1/data-sources/${id}/data\<close>\<close>
  | V1MediaFoldersOfApp jsval    \<comment> \<open>\<open>/v1/media/folders?appId=${appId}\<close>\<close>
  | V1MediaFolderFiles jsval     \<comment> \<open>\<open>/v1/media/folders/${folderId}/files\<close>\<close>
  | V1MediaFile jsval            \<comment> \<open>\<open>/v1/media/files/${id}\<close>\<close>

text \<open>
  Every \<open>Error\<close> the program can throw or pass on, one constructor per message
  template of the source. \<open>External\<close> is an error raised by a collaborator (a rejected
  \<open>fetch\<close>, a body that is not JSON, a failed model call) with its message;
  \<open>TypeError\<close> is raised by the JavaScript runtime inside the program's own code, with
  the message as V8 words it.
\<close>

datatype error =
    FailedAfter nat path             \<comment> \<open>\<open>Failed after ${MAX_RETRIES} attempts: ${path}\<close>\<close>
  | RateLimited path                 \<comment> \<open>\<open>429 Rate Limited on ${path}\<close>\<close>
  | HttpError nat string string      \<comment> \<open>\<open>${res.status} ${res.statusText} - ${body.slice(0, 200)}\<close>\<close>
  | UnknownTool string               \<comment> \<open>\<open>Unknown tool: ${name}\<close>\<close>
  | TypeError string
  | External string

section \<open>The world outside the program\<close>

text \<open>
  A response of the backend as the client reads it: \<open>res.status\<close>, \<open>res.statusText\<close>,
  the outcome of \<open>res.text()\<close> (\<open>None\<close> when that promise rejects) and the outcome of
  \<open>res.json()\<close>.
\<close>

record http_response =
  status :: nat
  statusText :: string
  body :: "string option"
  parsed :: "error + json"

datatype fetch_result =
    Rejected error
  | Responded http_response

text \<open>\<open>res.ok\<close>: the status is in the range 200 to 299.\<close>

definition ok :: "http_response \<Rightarrow> bool" where
  "ok res = (200 \<le> status res \<and> status res \<le> 299)"

text \<open>Content blocks, messages and the model's responses (the Anthropic Messages API).\<close>

datatype tool_content =
    OfResult json     \<comment> \<open>\<open>JSON.stringify(result)\<close>\<close>
  | OfError error     \<comment> \<open>\<open>JSON.stringify({ error: err.message })\<close>\<close>

datatype block =
    TextBlock string                          \<comment> \<open>\<open>{type: 'text', text}\<close>\<close>
  | ToolUse string string json                \<comment> \<open>\<open>{type: 'tool_use', id, name, input}\<close>\<close>
  | ToolResult string tool_content bool       \<comment> \<open>\<open>{type: 'tool_result', tool_use_id, content, is_error}\<close>\<close>
  | OtherBlock string                         \<comment> \<open>a block of any other type\<close>

datatype role = User | Assistant

datatype content =
    Str string
  | Blocks "block list"

record message =
  role :: role
  content :: content

record response =
  response_content :: "block list"
  stop_reason :: string

text \<open>
  One call of the model through the streaming interface: the text fragments the stream
  emits, and what \<open>finalMessage()\<close> ends with, the assembled message or an error.
\<close>

record model_call =
  fragments :: "string list"
  final :: "error + response"

datatype event =
    TextDelta string          \<comment> \<open>\<open>{type: 'text_delta', text}\<close>\<close>
  | ToolStart string json     \<comment> \<open>\<open>{type: 'tool_start', name, input}\<close>\<close>

text \<open>
  The collaborators are parameters. \<open>fetch e k p\<close> is what the backend answers to the
  \<open>k\<close>-th request of the run when it asks for path \<open>p\<close>; \<open>messages_create e k ms\<close> and
  \<open>messages_stream e k ms\<close> are what the \<open>k\<close>-th call of the model answers on the
  conversation \<open>ms\<close>, made with \<open>anthropic.messages.create\<close> or with
  \<open>anthropic.messages.stream\<close>; \<open>le_cap e v\<close> is the runtime's
  value of \<open>v <= 50\<close> for a parsed value \<open>v\<close> that is a string, an array or an object
  (the coercions \<open>ToPrimitive\<close> and \<open>StringToNumber\<close>, which can throw);
  \<open>FLIPLET_APP_ID\<close> is the configured application identifier, a non-empty string.
\<close>

record env =
  fetch :: "nat \<Rightarrow> path \<Rightarrow> fetch_result"
  messages_create :: "nat \<Rightarrow> message list \<Rightarrow> error + response"
  messages_stream :: "nat \<Rightarrow> message list \<Rightarrow> model_call"
  le_cap :: "json \<Rightarrow> error + bool"
  FLIPLET_APP_ID :: string

text \<open>
  The effects of a run, in order: the paths requested, the delays slept (milliseconds),
  the number of model calls made, and the events handed to the streaming callback.
\<close>

record world =
  requests :: "path list"
  slept :: "nat list"
  model_calls :: nat
  events :: "event list"

definition world0 :: world where
  "world0 = \<lparr>requests = [], slept = [], model_calls = 0, events = []\<rparr>"

section \<open>The Fliplet client\<close>

definition MAX_RETRIES :: nat where
  "MAX_RETRIES = 3"

definition RETRY_BASE_MS :: nat where
  "RETRY_BASE_MS = 500"

definition MAX_ENTRIES :: nat where
  "MAX_ENTRIES = 50"

definition sleep :: "nat \<Rightarrow> world \<Rightarrow> world" where
  "sleep ms w = w\<lparr>slept := slept w @ [ms]\<rparr>"

definition do_fetch :: "env \<Rightarrow> path \<Rightarrow> world \<Rightarrow> fetch_result \<times> world" where
  "do_fetch e p w = (fetch e (length (requests w)) p, w\<lparr>requests := requests w @ [p]\<rparr>)"

text \<open>
  The \<open>catch\<close> block of \<open>get\<close>: it keeps the error and sleeps unless this was the last
  attempt.
\<close>

definition backoff :: "nat \<Rightarrow> world \<Rightarrow> world" where
  "backoff attempt w =
     (if attempt < MAX_RETRIES - 1 then sleep (RETRY_BASE_MS * 2 ^ attempt) w else w)"

text \<open>
  The error thrown for a response that is not ok; a body that cannot be read counts as
  the empty string.
\<close>

definition http_error :: "http_response \<Rightarrow> error" where
  "http_error res =
     HttpError (status res) (statusText res)
       (take 200 (case body res of None \<Rightarrow> [] | Some b \<Rightarrow> b))"

text \<open>
  \<open>FlipletAPI.get\<close>, the loop from \<open>attempt\<close> on, with \<open>lastErr\<close> as it stands. The
  \<open>throw\<close> for a response that is not ok stands inside the \<open>try\<close>, so the \<open>catch\<close> of
  the same iteration receives it. \<open>return res.json()\<close> is not awaited inside the
  \<open>try\<close>: a body that does not parse rejects the call itself.
\<close>

function get_from :: "env \<Rightarrow> path \<Rightarrow> nat \<Rightarrow> error \<Rightarrow> world \<Rightarrow> (error + json) \<times> world" where
  "get_from e p attempt lastErr w =
     (if attempt < MAX_RETRIES then
        (case do_fetch e p w of
           (Rejected err, w1) \<Rightarrow> get_from e p (attempt + 1) err (backoff attempt w1)
         | (Responded res, w1) \<Rightarrow>
             if status res = 429 then
               get_from e p (attempt + 1) (RateLimited p)
                 (sleep (RETRY_BASE_MS * 2 ^ attempt) w1)
             else if \<not> ok res then
               get_from e p (attempt + 1) (http_error res) (backoff attempt w1)
             else (parsed res, w1))
      else (Inl lastErr, w))"
  by pat_completeness auto
termination
  by (relation "measure (\<lambda>(e, p, attempt, lastErr, w). MAX_RETRIES - attempt)") auto

declare get_from.simps [simp del]

definition get :: "env \<Rightarrow> path \<Rightarrow> world \<Rightarrow> (error + json) \<times> world" where
  "get e p w = get_from e p 0 (FailedAfter MAX_RETRIES p) w"

text \<open>
  Truthiness of a value (the operand of \<open>!\<close> and \<open>||\<close>), and \<open>a || b\<close>.
\<close>

fun truthy :: "jsval \<Rightarrow> bool" where
  "truthy Undefined = False"
| "truthy ArrayProtoEntries = True"
| "truthy (Json JNull) = False"
| "truthy (Json (JBool b)) = b"
| "truthy (Json (JNum n)) = (n \<noteq> 0)"
| "truthy (Json (JStr s)) = (s \<noteq> [])"
| "truthy (Json (JArr xs)) = True"
| "truthy (Json (JObj kvs)) = True"

definition js_or :: "jsval \<Rightarrow> jsval \<Rightarrow> jsval" where
  "js_or a b = (if truthy a then a else b)"

text \<open>
  \<open>v[key]\<close> for a key that no prototype of a parsed value defines (\<open>rows\<close>, \<open>app_id\<close>,
  \<open>data_source_id\<close>, \<open>folder_id\<close>, \<open>file_id\<close>, and \<open>length\<close> and \<open>slice\<close> of a plain
  object): the own property of an object, \<open>undefined\<close> for everything else. The caller
  handles \<open>null\<close>.
\<close>

fun own :: "json \<Rightarrow> string \<Rightarrow> jsval" where
  "own (JObj kvs) key = (case map_of kvs key of None \<Rightarrow> Undefined | Some v \<Rightarrow> Json v)"
| "own v key = Undefined"

text \<open>
  \<open>data?.entries\<close>. An array has no own property \<open>entries\<close> but inherits the method
  \<open>Array.prototype.entries\<close>, so for an array the expression is that function.
\<close>

fun opt_entries :: "json \<Rightarrow> jsval" where
  "opt_entries (JArr xs) = ArrayProtoEntries"
| "opt_entries v = own v ''entries''"

text \<open>\<open>data?.rows\<close>: no prototype of a parsed value has a member \<open>rows\<close>.\<close>

definition opt_rows :: "json \<Rightarrow> jsval" where
  "opt_rows v = own v ''rows''"

text \<open>\<open>Array.isArray(data) ? data : null\<close>.\<close>

fun array_or_null :: "json \<Rightarrow> jsval" where
  "array_or_null (JArr xs) = Json (JArr xs)"
| "array_or_null v = Json JNull"

text \<open>Decimal digits of a number, for the note of a truncated payload.\<close>

definition digit :: "nat \<Rightarrow> char" where
  "digit d = char_of (48 + d)"

function show_nat :: "nat \<Rightarrow> string" where
  "show_nat n = (if n < 10 then [digit n] else show_nat (n div 10) @ [digit (n mod 10)])"
  by pat_completeness auto
termination
  by (relation "measure (\<lambda>n. n)") auto

declare show_nat.simps [simp del]

text \<open>The object \<open>truncateEntries\<close> returns for a collection of \<open>count\<close> elements.\<close>

definition truncated :: "nat \<Rightarrow> json \<Rightarrow> json" where
  "truncated count sample =
     JObj [(''_truncated'', JBool True),
           (''_totalCount'', JNum (int count)),
           (''_shownCount'', JNum (int MAX_ENTRIES)),
           (''_note'', JStr (''Showing first '' @ show_nat MAX_ENTRIES @ '' of '' @ show_nat count
                             @ '' entries. Ask the user if they need more.'')),
           (''entries'', sample)]"

text \<open>
  \<open>entries.length <= MAX_ENTRIES\<close> where \<open>entries\<close> is a plain object: its own
  property \<open>length\<close> decides. \<open>undefined\<close> compares false; \<open>null\<close> and the booleans
  coerce to 0 or 1.
\<close>

definition object_within_cap :: "env \<Rightarrow> json \<Rightarrow> error + bool" where
  "object_within_cap e obj =
     (case own obj ''length'' of
        Json (JNum n) \<Rightarrow> Inr (n \<le> int MAX_ENTRIES)
      | Json JNull \<Rightarrow> Inr True
      | Json (JBool b) \<Rightarrow> Inr True
      | Json v \<Rightarrow> le_cap e v
      | other \<Rightarrow> Inr False)"

text \<open>
  \<open>truncateEntries\<close>. After the early return, \<open>entries.slice(0, MAX_ENTRIES)\<close> works
  on an array and on a string; a number, \<open>true\<close> and a plain object have no callable
  \<open>slice\<close>, and the call throws.
\<close>

definition not_a_function :: error where
  "not_a_function = TypeError ''entries.slice is not a function''"

definition truncateEntries :: "env \<Rightarrow> json \<Rightarrow> error + json" where
  "truncateEntries e data =
     (let entries = js_or (js_or (opt_entries data) (opt_rows data)) (array_or_null data) in
      if \<not> truthy entries then Inr data
      else
        (case entries of
           ArrayProtoEntries \<Rightarrow> Inr data    \<comment> \<open>the \<open>length\<close> of that function is 0\<close>
         | Json (JArr xs) \<Rightarrow>
             if length xs \<le> MAX_ENTRIES then Inr data
             else Inr (truncated (length xs) (JArr (take MAX_ENTRIES xs)))
         | Json (JStr s) \<Rightarrow>
             if length s \<le> MAX_ENTRIES then Inr data
             else Inr (truncated (length s) (JStr (take MAX_ENTRIES s)))
         | Json (JObj kvs) \<Rightarrow>
             (case object_within_cap e (JObj kvs) of
                Inl err \<Rightarrow> Inl err
              | Inr within \<Rightarrow> if within then Inr data else Inl not_a_function)
         | other \<Rightarrow> Inl not_a_function))"

text \<open>The accessors of \<open>FlipletAPI\<close>.\<close>

definition getApp :: "env \<Rightarrow> jsval \<Rightarrow> world \<Rightarrow> (error + json) \<times> world" where
  "getApp e ident w = get e (V1Apps ident) w"

definition listDataSources :: "env \<Rightarrow> jsval \<Rightarrow> world \<Rightarrow> (error + json) \<times> world" where
  "listDataSources e appId w = get e (V1DataSourcesOfApp appId) w"

definition getDataSource :: "env \<Rightarrow> jsval \<Rightarrow> world \<Rightarrow> (error + json) \<times> world" where
  "getDataSource e ident w = get e (V1DataSource ident) w"

definition getDataSourceEntries :: "env \<Rightarrow> jsval \<Rightarrow> world \<Rightarrow> (error + json) \<times> world" where
  "getDataSourceEntries e ident w =
     (case get e (V1DataSourceData ident) w of
        (Inl err, w1) \<Rightarrow> (Inl err, w1)
      | (Inr data, w1) \<Rightarrow> (truncateEntries e data, w1))"

definition listMediaFolders :: "env \<Rightarrow> jsval \<Rightarrow> world \<Rightarrow> (error + json) \<times> world" where
  "listMediaFolders e appId w = get e (V1MediaFoldersOfApp appId) w"

definition getFolderFiles :: "env \<Rightarrow> jsval \<Rightarrow> world \<Rightarrow> (error + json) \<times> world" where
  "getFolderFiles e folderId w = get e (V1MediaFolderFiles folderId) w"

definition getFile :: "env \<Rightarrow> jsval \<Rightarrow> world \<Rightarrow> (error + json) \<times> world" where
  "getFile e ident w = get e (V1MediaFile ident) w"

section \<open>The tool dispatcher\<close>

text \<open>
  The names of the catalog \<open>buildTools\<close> returns, in its order; they are the keys of
  \<open>routes\<close>. \<open>routes[name]\<close>: \<open>routes\<close> is an object literal with the seven tools as
  own properties. A member access on it also finds what the literal inherits from
  \<open>Object.prototype\<close>, whose property names are listed here.
\<close>

definition tool_names :: "string list" where
  "tool_names =
     [''get_app_info'', ''list_data_sources'', ''get_data_source'', ''get_data_source_entries'',
      ''list_media_folders'', ''get_folder_files'', ''get_file_info'']"

datatype handler =
    GetAppInfo
  | ListDataSources
  | GetDataSource
  | GetDataSourceEntries
  | ListMediaFolders
  | GetFolderFiles
  | GetFileInfo
  | ObjectPrototype string

definition object_prototype_names :: "string list" where
  "object_prototype_names =
     [''constructor'', ''__defineGetter__'', ''__defineSetter__'', ''hasOwnProperty'',
      ''__lookupGetter__'', ''__lookupSetter__'', ''isPrototypeOf'', ''propertyIsEnumerable'',
      ''toString'', ''valueOf'', ''__proto__'', ''toLocaleString'']"

definition routes :: "string \<Rightarrow> handler option" where
  "routes name =
     (if name = ''get_app_info'' then Some GetAppInfo
      else if name = ''list_data_sources'' then Some ListDataSources
      else if name = ''get_data_source'' then Some GetDataSource
      else if name = ''get_data_source_entries'' then Some GetDataSourceEntries
      else if name = ''list_media_folders'' then Some ListMediaFolders
      else if name = ''get_folder_files'' then Some GetFolderFiles
      else if name = ''get_file_info'' then Some GetFileInfo
      else if name \<in> set object_prototype_names then Some (ObjectPrototype name)
      else None)"

text \<open>
  \<open>handler()\<close> for an inherited member: a call with no receiver and no argument.
  \<open>Object()\<close> returns a new empty object; \<open>Object.prototype.toString\<close> answers for
  \<open>undefined\<close>; \<open>isPrototypeOf\<close> returns false for an argument that is not an object;
  \<open>__proto__\<close> reads as the prototype object, which is not callable; each of the others
  first converts its receiver to an object, which throws for \<open>undefined\<close>.
\<close>

definition call_inherited :: "string \<Rightarrow> error + json" where
  "call_inherited name =
     (if name = ''constructor'' then Inr (JObj [])
      else if name = ''toString'' then Inr (JStr ''[object Undefined]'')
      else if name = ''isPrototypeOf'' then Inr (JBool False)
      else if name = ''__proto__'' then Inl (TypeError ''handler is not a function'')
      else if name = ''toLocaleString'' then
        Inl (TypeError ''Object.prototype.toLocaleString called on null or undefined'')
      else Inl (TypeError ''Cannot convert undefined or null to object''))"

text \<open>
  \<open>executeTool(name, input, api, defaultAppId)\<close>; \<open>api\<close> is the client above. Reading
  \<open>input.app_id\<close> throws when \<open>input\<close> is \<open>null\<close>. Every throw rejects the promise the
  \<open>async\<close> function returns.
\<close>

definition executeTool :: "env \<Rightarrow> string \<Rightarrow> json \<Rightarrow> string \<Rightarrow> world \<Rightarrow> (error + json) \<times> world" where
  "executeTool e name input defaultAppId w =
     (if input = JNull then (Inl (TypeError ''Cannot read properties of null (reading 'app_id')''), w)
      else
        (let ident = own input;
             appId = js_or (own input ''app_id'') (Json (JStr defaultAppId))
         in case routes name of
              None \<Rightarrow> (Inl (UnknownTool name), w)
            | Some GetAppInfo \<Rightarrow> getApp e appId w
            | Some ListDataSources \<Rightarrow> listDataSources e appId w
            | Some GetDataSource \<Rightarrow> getDataSource e (ident ''data_source_id'') w
            | Some GetDataSourceEntries \<Rightarrow> getDataSourceEntries e (ident ''data_source_id'') w
            | Some ListMediaFolders \<Rightarrow> listMediaFolders e appId w
            | Some GetFolderFiles \<Rightarrow> getFolderFiles e (ident ''folder_id'') w
            | Some GetFileInfo \<Rightarrow> getFile e (ident ''file_id'') w
            | Some (ObjectPrototype member) \<Rightarrow> (call_inherited member, w)))"

section \<open>The agent loop\<close>

definition MAX_TOOL_ROUNDS :: nat where
  "MAX_TOOL_ROUNDS = 10"

definition MAX_HISTORY_MESSAGES :: nat where
  "MAX_HISTORY_MESSAGES = 40"

definition emit :: "event \<Rightarrow> world \<Rightarrow> world" where
  "emit ev w = w\<lparr>events := events w @ [ev]\<rparr>"

text \<open>\<open>anthropic.messages.create\<close>: one call of the model, no event.\<close>

definition create :: "env \<Rightarrow> message list \<Rightarrow> world \<Rightarrow> (error + response) \<times> world" where
  "create e messages w =
     (messages_create e (model_calls w) messages, w\<lparr>model_calls := model_calls w + 1\<rparr>)"

text \<open>
  \<open>streamedRequest\<close>: the same call through the streaming interface; every text
  fragment goes to the callback as a \<open>text_delta\<close> event before the final message
  is returned.
\<close>

definition streamedRequest :: "env \<Rightarrow> message list \<Rightarrow> world \<Rightarrow> (error + response) \<times> world" where
  "streamedRequest e messages w =
     (let call = messages_stream e (model_calls w) messages
      in (final call,
          w\<lparr>model_calls := model_calls w + 1,
            events := events w @ map TextDelta (fragments call)\<rparr>))"

text \<open>The request of a round: streamed when a callback was passed (\<open>useStream\<close>).\<close>

definition model_request :: "env \<Rightarrow> bool \<Rightarrow> message list \<Rightarrow> world \<Rightarrow> (error + response) \<times> world" where
  "model_request e onEvent messages w =
     (if onEvent then streamedRequest e messages w else create e messages w)"

fun is_text :: "block \<Rightarrow> bool" where
  "is_text (TextBlock t) = True"
| "is_text b = False"

fun is_tool_use :: "block \<Rightarrow> bool" where
  "is_tool_use (ToolUse ident name input) = True"
| "is_tool_use b = False"

fun text_of :: "block \<Rightarrow> string" where
  "text_of (TextBlock t) = t"
| "text_of b = []"

text \<open>\<open>Array.prototype.join\<close> on strings.\<close>

fun join :: "string \<Rightarrow> string list \<Rightarrow> string" where
  "join sep [] = []"
| "join sep [x] = x"
| "join sep (x # y # ys) = x @ sep @ join sep (y # ys)"

definition reply_of :: "response \<Rightarrow> string" where
  "reply_of resp = join [CHR 0x0A] (map text_of (filter is_text (response_content resp)))"

definition FALLBACK_REPLY :: string where
  "FALLBACK_REPLY = ''Hit the tool-call limit. Try a more specific question.''"

text \<open>
  The inner loop of a round over the \<open>tool_use\<close> blocks of the response, with
  \<open>toolResults\<close> as built so far. \<open>onEvent\<close> tells whether a callback was passed.
  The \<open>try\<close> around \<open>executeTool\<close> turns a rejection into a result with
  \<open>is_error: true\<close>. (The \<open>console.log\<close> of the source is left out.)
\<close>

fun run_tools :: "env \<Rightarrow> bool \<Rightarrow> block list \<Rightarrow> block list \<Rightarrow> world \<Rightarrow> block list \<times> world" where
  "run_tools e onEvent [] toolResults w = (toolResults, w)"
| "run_tools e onEvent (ToolUse ident name input # bs) toolResults w =
     (let w1 = (if onEvent then emit (ToolStart name input) w else w)
      in case executeTool e name input (FLIPLET_APP_ID e) w1 of
           (Inr result, w2) \<Rightarrow>
             run_tools e onEvent bs (toolResults @ [ToolResult ident (OfResult result) False]) w2
         | (Inl err, w2) \<Rightarrow>
             run_tools e onEvent bs (toolResults @ [ToolResult ident (OfError err) True]) w2)"
| "run_tools e onEvent (b # bs) toolResults w = run_tools e onEvent bs toolResults w"

definition assistant :: "block list \<Rightarrow> message" where
  "assistant bs = \<lparr>role = Assistant, content = Blocks bs\<rparr>"

definition user_blocks :: "block list \<Rightarrow> message" where
  "user_blocks bs = \<lparr>role = User, content = Blocks bs\<rparr>"

definition user_text :: "string \<Rightarrow> message" where
  "user_text s = \<lparr>role = User, content = Str s\<rparr>"

text \<open>
  \<open>agentLoop(messages, onEvent)\<close>, the \<open>for\<close> loop from round \<open>rnd\<close> on. A model
  call that throws ends the loop with that error. The result is the pair
  \<open>{reply, updatedMessages}\<close>.
\<close>

function agentLoop_from ::
  "env \<Rightarrow> bool \<Rightarrow> nat \<Rightarrow> message list \<Rightarrow> world \<Rightarrow> (error + string \<times> message list) \<times> world" where
  "agentLoop_from e onEvent rnd messages w =
     (if rnd < MAX_TOOL_ROUNDS then
        (case model_request e onEvent messages w of
           (Inl err, w1) \<Rightarrow> (Inl err, w1)
         | (Inr resp, w1) \<Rightarrow>
             (let messages1 = messages @ [assistant (response_content resp)] in
              if stop_reason resp = ''end_turn'' then (Inr (reply_of resp, messages1), w1)
              else if stop_reason resp = ''tool_use'' then
                (case run_tools e onEvent (filter is_tool_use (response_content resp)) [] w1 of
                   (toolResults, w2) \<Rightarrow>
                     agentLoop_from e onEvent (rnd + 1) (messages1 @ [user_blocks toolResults]) w2)
              else agentLoop_from e onEvent (rnd + 1) messages1 w1))
      else (Inr (FALLBACK_REPLY, messages), w))"
  by pat_completeness auto
termination
  by (relation "measure (\<lambda>(e, onEvent, rnd, messages, w). MAX_TOOL_ROUNDS - rnd)") auto

declare agentLoop_from.simps [simp del]

definition agentLoop :: "env \<Rightarrow> bool \<Rightarrow> message list \<Rightarrow> world \<Rightarrow> (error + string \<times> message list) \<times> world" where
  "agentLoop e onEvent messages w = agentLoop_from e onEvent 0 messages w"

text \<open>\<open>trimHistory\<close>: \<open>messages.slice(-MAX_HISTORY_MESSAGES)\<close> keeps the last 40.\<close>

definition trimHistory :: "message list \<Rightarrow> message list" where
  "trimHistory messages =
     (if length messages \<le> MAX_HISTORY_MESSAGES then messages
      else drop (length messages - MAX_HISTORY_MESSAGES) messages)"

text \<open>
  The two chat handlers, from a request body with a string \<open>message\<close> and a list
  \<open>history\<close>, to what the caller is sent: for \<open>/api/chat\<close> the status and the JSON
  object, for \<open>/api/chat/stream\<close> the terminal event (the events before it are the
  callback's, in \<open>events\<close>).
\<close>

datatype reply =
    BadRequest                       \<comment> \<open>status 400, \<open>message is required\<close>\<close>
  | Failed error                     \<comment> \<open>status 500, or the \<open>error\<close> event\<close>
  | Answer string "message list"     \<comment> \<open>\<open>{reply, history}\<close>, or the \<open>done\<close> event\<close>

definition chat_turn :: "env \<Rightarrow> bool \<Rightarrow> string \<Rightarrow> message list \<Rightarrow> world \<Rightarrow> reply \<times> world" where
  "chat_turn e streaming msg history w =
     (if msg = [] then (BadRequest, w)
      else
        (case agentLoop e streaming (trimHistory (history @ [user_text msg])) w of
           (Inl err, w1) \<Rightarrow> (Failed err, w1)
         | (Inr (reply, updatedMessages), w1) \<Rightarrow> (Answer reply updatedMessages, w1)))"

definition post_api_chat :: "env \<Rightarrow> string \<Rightarrow> message list \<Rightarrow> world \<Rightarrow> reply \<times> world" where
  "post_api_chat e msg history w = chat_turn e False msg history w"

definition post_api_chat_stream :: "env \<Rightarrow> string \<Rightarrow> message list \<Rightarrow> world \<Rightarrow> reply \<times> world" where
  "post_api_chat_stream e msg history w = chat_turn e True msg history w"

section \<open>Notions of the statements\<close>

text \<open>
  The row collection of a row-listing payload, in the specification's words: the list
  under the named field \<open>entries\<close>, else the list under the fallback field \<open>rows\<close>,
  else the payload itself when it is a bare list. The fallback field counts where the
  named field is absent or holds a falsy value (\<open>null\<close>, \<open>false\<close>, \<open>0\<close>, the empty
  string); a payload whose named field holds something else that is not a list has no
  row collection.
\<close>

definition rows_field :: "(string \<times> json) list \<Rightarrow> json list option" where
  "rows_field kvs = (case map_of kvs ''rows'' of Some (JArr xs) \<Rightarrow> Some xs | other \<Rightarrow> None)"

fun row_collection :: "json \<Rightarrow> json list option" where
  "row_collection (JArr xs) = Some xs"
| "row_collection (JObj kvs) =
     (case map_of kvs ''entries'' of
        None \<Rightarrow> rows_field kvs
      | Some (JArr xs) \<Rightarrow> Some xs
      | Some v \<Rightarrow> (if truthy (Json v) then None else rows_field kvs))"
| "row_collection v = None"

text \<open>
  What the \<open>k\<close>-th call of the model answers to the loop, with the callback (the
  final message of the stream) or without it.
\<close>

definition model_response :: "env \<Rightarrow> bool \<Rightarrow> nat \<Rightarrow> message list \<Rightarrow> error + response" where
  "model_response e onEvent k ms =
     (if onEvent then final (messages_stream e k ms) else messages_create e k ms)"

text \<open>The \<open>tool_start\<close> events of the invocations of a response, in order.\<close>

fun tool_starts :: "block list \<Rightarrow> event list" where
  "tool_starts [] = []"
| "tool_starts (ToolUse ident name input # bs) = ToolStart name input # tool_starts bs"
| "tool_starts (b # bs) = tool_starts bs"

text \<open>
  The invocation identifier of a \<open>tool_use\<close> block and of a \<open>tool_result\<close> block, and
  the tag of a result: a success carries the serialised payload and no \<open>is_error\<close>, a
  failure carries the serialised error message and \<open>is_error: true\<close>.
\<close>

fun invocation_id :: "block \<Rightarrow> string" where
  "invocation_id (ToolUse ident name input) = ident"
| "invocation_id b = []"

fun result_id :: "block \<Rightarrow> string" where
  "result_id (ToolResult ident c err) = ident"
| "result_id b = []"

fun well_tagged :: "block \<Rightarrow> bool" where
  "well_tagged (ToolResult ident (OfResult v) err) = (\<not> err)"
| "well_tagged (ToolResult ident (OfError x) err) = err"
| "well_tagged b = False"








section \<open>The runtime's comparison with the cap\<close>

text \<open>
  What JavaScript computes for \<open>v <= 50\<close> when \<open>v\<close> is not a number: \<open>v\<close> is
  converted to a string and the string to a number. The scenarios below take this
  function as their \<open>le_cap\<close>.
\<close>

text \<open>
  White space of a numeric string, among the code units below 256: tab, line feed,
  vertical tab, form feed, carriage return, space and no-break space.
\<close>

definition is_space :: "char \<Rightarrow> bool" where
  "is_space c = (of_char c \<in> {9, 10, 11, 12, 13, 32, 160 :: nat})"

definition trim :: "string \<Rightarrow> string" where
  "trim s = rev (dropWhile is_space (rev (dropWhile is_space s)))"

text \<open>Digits, and the value of a run of digits in a base.\<close>

definition is_digit :: "char \<Rightarrow> bool" where
  "is_digit c = (48 \<le> (of_char c :: nat) \<and> (of_char c :: nat) \<le> 57)"

definition digit_value :: "char \<Rightarrow> nat option" where
  "digit_value c =
     (let n = (of_char c :: nat) in
      if 48 \<le> n \<and> n \<le> 57 then Some (n - 48)
      else if 97 \<le> n \<and> n \<le> 102 then Some (n - 87)
      else if 65 \<le> n \<and> n \<le> 70 then Some (n - 55)
      else None)"

fun numeral_value :: "nat \<Rightarrow> int \<Rightarrow> string \<Rightarrow> int option" where
  "numeral_value base acc [] = Some acc"
| "numeral_value base acc (c # cs) =
     (case digit_value c of
        None \<Rightarrow> None
      | Some d \<Rightarrow> if d < base then numeral_value base (acc * int base + int d) cs else None)"

text \<open>
  The mathematical value of a numeric string: not a number, infinite, or
  \<open>m * 10 ^ x\<close> for \<open>Finite m x\<close>. An unsigned decimal literal is \<open>Infinity\<close> or
  digits with an optional fraction and an optional exponent, at least one digit before
  the exponent; a literal with the prefix \<open>0x\<close>, \<open>0o\<close> or \<open>0b\<close> takes no sign.
\<close>

datatype numeric = NaN | Infinite | Finite int int

definition exponent_part :: "string \<Rightarrow> int option" where
  "exponent_part s =
     (case s of
        [] \<Rightarrow> Some 0
      | c # cs \<Rightarrow>
          if c = CHR ''e'' \<or> c = CHR ''E'' then
            (let (negative, ds) =
               (case cs of
                  [] \<Rightarrow> (False, [])
                | d # ds' \<Rightarrow> if d = CHR ''-'' then (True, ds') else if d = CHR ''+'' then (False, ds') else (False, cs))
             in if ds = [] then None
                else (case numeral_value 10 0 ds of
                        None \<Rightarrow> None
                      | Some n \<Rightarrow> Some (if negative then - n else n)))
          else None)"

definition unsigned_decimal :: "string \<Rightarrow> numeric" where
  "unsigned_decimal s =
     (if s = ''Infinity'' then Infinite
      else
        (let whole = takeWhile is_digit s;
             rest = dropWhile is_digit s;
             fraction = (case rest of c # cs \<Rightarrow> if c = CHR ''.'' then takeWhile is_digit cs else [] | [] \<Rightarrow> []);
             tail = (case rest of c # cs \<Rightarrow> if c = CHR ''.'' then dropWhile is_digit cs else rest | [] \<Rightarrow> [])
         in if whole = [] \<and> fraction = [] then NaN
            else (case (numeral_value 10 0 (whole @ fraction), exponent_part tail) of
                    (Some m, Some x) \<Rightarrow> Finite m (x - int (length fraction))
                  | other \<Rightarrow> NaN)))"

definition prefixed :: "string \<Rightarrow> numeric" where
  "prefixed s =
     (case s of
        z # p # ds \<Rightarrow>
          if z = CHR ''0'' \<and> ds \<noteq> [] then
            (let base = (if p = CHR ''x'' \<or> p = CHR ''X'' then 16
                         else if p = CHR ''o'' \<or> p = CHR ''O'' then 8
                         else if p = CHR ''b'' \<or> p = CHR ''B'' then 2 else 0)
             in case numeral_value base 0 ds of None \<Rightarrow> NaN | Some n \<Rightarrow> Finite n 0)
          else NaN
      | other \<Rightarrow> NaN)"

text \<open>
  \<open>m * 10 ^ x <= 50\<close> after rounding to the nearest double, ties to even: the
  doubles next to 50 are \<open>2 ^ - 47\<close> apart and 50 has an even significand, so exactly
  the values up to \<open>50 + 2 ^ - 48\<close> round to at most 50.
\<close>

definition within_cap :: "int \<Rightarrow> int \<Rightarrow> bool" where
  "within_cap m x =
     (if 0 \<le> x then m * 10 ^ nat x * 2 ^ 48 \<le> 50 * 2 ^ 48 + 1
      else m * 2 ^ 48 \<le> (50 * 2 ^ 48 + 1) * 10 ^ nat (- x))"

text \<open>
  \<open>s <= 50\<close> for a string \<open>s\<close> (\<open>StringToNumber\<close>): the empty string is 0, a string
  that is no numeric literal is not a number and compares false, a negative literal is
  below the cap.
\<close>

definition string_le_cap :: "string \<Rightarrow> bool" where
  "string_le_cap s =
     (let t = trim s in
      case t of
        [] \<Rightarrow> True
      | c # cs \<Rightarrow>
          if c = CHR ''-'' then unsigned_decimal cs \<noteq> NaN
          else
            (case (if c = CHR ''+'' then unsigned_decimal cs
                   else if prefixed t \<noteq> NaN then prefixed t else unsigned_decimal t) of
               NaN \<Rightarrow> False
             | Infinite \<Rightarrow> False
             | Finite m x \<Rightarrow> within_cap m x))"

text \<open>
  The string of a parsed value, as \<open>Array.prototype.join\<close> and \<open>ToPrimitive\<close> make
  it: the elements of an array joined by commas, \<open>null\<close> elements as the empty string;
  \<open>[object Object]\<close> for an object, unless an own property \<open>toString\<close> (which is
  never callable in a parsed value) shadows the inherited method, in which case the
  conversion throws.
\<close>

definition text_of_int :: "int \<Rightarrow> string" where
  "text_of_int n = (if n < 0 then ''-'' @ show_nat (nat (- n)) else show_nat (nat n))"

fun join_all :: "(error + string) list \<Rightarrow> error + string" where
  "join_all [] = Inr []"
| "join_all [x] = x"
| "join_all (x # y # ys) =
     (case x of
        Inl err \<Rightarrow> Inl err
      | Inr s \<Rightarrow> (case join_all (y # ys) of Inl err \<Rightarrow> Inl err | Inr t \<Rightarrow> Inr (s @ '','' @ t)))"

fun to_text :: "json \<Rightarrow> error + string" where
  "to_text JNull = Inr ''null''"
| "to_text (JBool b) = Inr (if b then ''true'' else ''false'')"
| "to_text (JNum n) = Inr (text_of_int n)"
| "to_text (JStr s) = Inr s"
| "to_text (JArr xs) = join_all (map (\<lambda>x. if x = JNull then Inr [] else to_text x) xs)"
| "to_text (JObj kvs) =
     (if map_of kvs ''toString'' = None then Inr ''[object Object]''
      else Inl (TypeError ''Cannot convert object to primitive value''))"

text \<open>\<open>v <= 50\<close> for a parsed value \<open>v\<close> that is a string, an array or an object.\<close>

definition runtime_le_cap :: "json \<Rightarrow> error + bool" where
  "runtime_le_cap v = (case to_text v of Inl err \<Rightarrow> Inl err | Inr s \<Rightarrow> Inr (string_le_cap s))"

section \<open>Scenarios\<close>

text \<open>
  Concrete collaborators for the closed theorems below. \<open>backend f\<close> is an environment
  whose backend answers by \<open>f\<close> and whose model is out of reach.
\<close>

definition backend :: "(nat \<Rightarrow> path \<Rightarrow> fetch_result) \<Rightarrow> env" where
  "backend f =
     \<lparr>fetch = f,
      messages_create = (\<lambda>k ms. Inl (External ''model unavailable'')),
      messages_stream = (\<lambda>k ms. \<lparr>fragments = [], final = Inl (External ''model unavailable'')\<rparr>),
      le_cap = runtime_le_cap,
      FLIPLET_APP_ID = ''123''\<rparr>"

definition answer :: "nat \<Rightarrow> string \<Rightarrow> string \<Rightarrow> http_response" where
  "answer code reason txt =
     \<lparr>status = code, statusText = reason, body = Some txt,
      parsed = Inl (External ''Unexpected token in JSON'')\<rparr>"

definition answer_json :: "json \<Rightarrow> http_response" where
  "answer_json v = \<lparr>status = 200, statusText = ''OK'', body = None, parsed = Inr v\<rparr>"

definition always_429 :: env where
  "always_429 = backend (\<lambda>k p. Responded (answer 429 ''Too Many Requests'' ''slow down''))"

definition always_404 :: env where
  "always_404 = backend (\<lambda>k p. Responded (answer 404 ''Not Found'' ''no such app''))"

definition app_7 :: path where
  "app_7 = V1Apps (Json (JNum 7))"

text \<open>A data source of 51 rows, sent by the backend as a bare list, and one of 3 rows
  sent under \<open>entries\<close>.\<close>

definition a_row :: json where
  "a_row = JObj [(''id'', JNum 1), (''data'', JObj [(''Name'', JStr ''Ada'')])]"

definition bare_list_of_51 :: env where
  "bare_list_of_51 = backend (\<lambda>k p. Responded (answer_json (JArr (replicate 51 a_row))))"

definition three_rows :: json where
  "three_rows = JObj [(''entries'', JArr [a_row, a_row, a_row])]"

definition wrapped_list_of_3 :: env where
  "wrapped_list_of_3 = backend (\<lambda>k p. Responded (answer_json three_rows))"

text \<open>
  \<open>scripted script f\<close>: the model's \<open>k\<close>-th call is \<open>script k\<close> through either
  interface, the backend answers by \<open>f\<close>. \<open>says bs reason\<close> is a call that ends with the content \<open>bs\<close> and the stop reason
  \<open>reason\<close>, its text streamed block by block.
\<close>

definition scripted :: "(nat \<Rightarrow> model_call) \<Rightarrow> (nat \<Rightarrow> path \<Rightarrow> fetch_result) \<Rightarrow> env" where
  "scripted script f =
     \<lparr>fetch = f,
      messages_create = (\<lambda>k ms. final (script k)),
      messages_stream = (\<lambda>k ms. script k),
      le_cap = runtime_le_cap,
      FLIPLET_APP_ID = ''123''\<rparr>"

definition says :: "block list \<Rightarrow> string \<Rightarrow> model_call" where
  "says bs reason =
     \<lparr>fragments = map text_of (filter is_text bs),
      final = Inr \<lparr>response_content = bs, stop_reason = reason\<rparr>\<rparr>"

definition demo_app :: "nat \<Rightarrow> path \<Rightarrow> fetch_result" where
  "demo_app k p = Responded (answer_json (JObj [(''id'', JNum 123), (''name'', JStr ''Demo'')]))"

definition app_info_call :: block where
  "app_info_call = ToolUse ''toolu_01'' ''get_app_info'' (JObj [])"

text \<open>A model that asks for the app's metadata in every round.\<close>

definition keeps_calling :: env where
  "keeps_calling = scripted (\<lambda>k. says [app_info_call] ''tool_use'') demo_app"

text \<open>A model whose every response is cut at the token limit.\<close>

definition keeps_running_out :: env where
  "keeps_running_out = scripted (\<lambda>k. says [TextBlock ''The app has''] ''max_tokens'') demo_app"

text \<open>
  A model whose first response is cut at the token limit after a complete invocation,
  and which then ends the turn.
\<close>

definition cut_off :: env where
  "cut_off =
     scripted
       (\<lambda>k. if k = 0 then says [TextBlock ''Let me look.'', app_info_call] ''max_tokens''
            else says [TextBlock ''Done.''] ''end_turn'')
       demo_app"

definition hello :: "message list" where
  "hello = [user_text ''What is this app?'']"





text \<open>A round with two invocations that name no tool of the catalog.\<close>

definition two_strangers :: "block list" where
  "two_strangers =
     [ToolUse ''toolu_01'' ''constructor'' (JObj []),
      ToolUse ''toolu_02'' ''delete_app'' (JObj [])]"

section \<open>Properties of the client\<close>

text \<open>One iteration of the loop of \<open>get\<close>, case by case.\<close>

lemma get_from_exhausted: "get_from e p MAX_RETRIES lastErr w = (Inl lastErr, w)"
  by (simp add: get_from.simps)

lemma get_from_rate_limited:
  assumes "attempt < MAX_RETRIES"
    and "fetch e (length (requests w)) p = Responded res"
    and "status res = 429"
  shows "get_from e p attempt lastErr w =
     get_from e p (Suc attempt) (RateLimited p)
       (w\<lparr>requests := requests w @ [p], slept := slept w @ [RETRY_BASE_MS * 2 ^ attempt]\<rparr>)"
  using assms by (subst get_from.simps) (simp add: do_fetch_def sleep_def)

lemma get_from_not_ok:
  assumes "attempt < MAX_RETRIES"
    and "fetch e (length (requests w)) p = Responded res"
    and "status res \<noteq> 429"
    and "\<not> ok res"
  shows "get_from e p attempt lastErr w =
     get_from e p (Suc attempt) (http_error res)
       (backoff attempt (w\<lparr>requests := requests w @ [p]\<rparr>))"
  using assms by (subst get_from.simps) (simp add: do_fetch_def)

lemma get_from_rejected:
  assumes "attempt < MAX_RETRIES"
    and "fetch e (length (requests w)) p = Rejected err"
  shows "get_from e p attempt lastErr w =
     get_from e p (Suc attempt) err (backoff attempt (w\<lparr>requests := requests w @ [p]\<rparr>))"
  using assms by (subst get_from.simps) (simp add: do_fetch_def)

lemma get_from_ok:
  assumes "attempt < MAX_RETRIES"
    and "fetch e (length (requests w)) p = Responded res"
    and "ok res"
  shows "get_from e p attempt lastErr w = (parsed res, w\<lparr>requests := requests w @ [p]\<rparr>)"
proof -
  from \<open>ok res\<close> have "status res \<noteq> 429"
    by (auto simp: ok_def)
  with assms show ?thesis
    by (subst get_from.simps) (simp add: do_fetch_def)
qed

lemma get_first_answer_ok:
  assumes "fetch e (length (requests w)) p = Responded res" and "ok res"
  shows "get e p w = (parsed res, w\<lparr>requests := requests w @ [p]\<rparr>)"
  unfolding get_def using assms by (intro get_from_ok) (simp_all add: MAX_RETRIES_def)

text \<open>
  A response that is not ok and not 429 does not end the call: the error thrown inside
  the \<open>try\<close> is caught, and the loop goes on to the next attempt after the backoff.
\<close>

lemma get_retries_after_not_ok:
  assumes "fetch e (length (requests w)) p = Responded res"
    and "status res \<noteq> 429" and "\<not> ok res"
  shows "get e p w =
     get_from e p 1 (http_error res)
       (w\<lparr>requests := requests w @ [p], slept := slept w @ [500]\<rparr>)"
  unfolding get_def using assms
  by (subst get_from_not_ok [where res = res])
     (simp_all add: MAX_RETRIES_def backoff_def sleep_def RETRY_BASE_MS_def)

text \<open>
  Claim C1. The specification has \<open>get\<close> fail at once, with no retry, when the backend
  answers a status outside 200-299 other than 429. On a backend that answers 404 to
  every request the code asks three times, sleeping 500 ms and 1000 ms in between, and
  only then fails. The error it fails with does carry the status and the first 200
  characters of the body.
\<close>

theorem get_asks_three_times_on_404:
  "get always_404 app_7 world0 =
     (Inl (HttpError 404 ''Not Found'' ''no such app''),
      \<lparr>requests = [app_7, app_7, app_7], slept = [500, 1000],
       model_calls = 0, events = []\<rparr>)"
  by (simp add: get_def get_from.simps always_404_def backend_def answer_def MAX_RETRIES_def
      do_fetch_def world0_def ok_def backoff_def sleep_def RETRY_BASE_MS_def http_error_def)

text \<open>
  Claim C3, as the code has it. When the backend answers 429 to each of the three
  attempts, \<open>get\<close> asks exactly three times, sleeps 500, 1000 and 2000 ms, returns no
  payload and fails with the last error it saw, \<open>429 Rate Limited on <path>\<close>.
\<close>

theorem get_rate_limited_on_every_attempt:
  assumes "\<forall>k<3. \<exists>res. fetch e (length (requests w) + k) p = Responded res \<and> status res = 429"
  shows "get e p w =
     (Inl (RateLimited p),
      w\<lparr>requests := requests w @ [p, p, p], slept := slept w @ [500, 1000, 2000]\<rparr>)"
proof -
  from assms have "\<exists>res. fetch e (length (requests w) + 0) p = Responded res \<and> status res = 429"
    by (rule allE [where x = 0]) simp
  then obtain r0 where r0: "fetch e (length (requests w)) p = Responded r0" "status r0 = 429"
    by auto
  from assms have "\<exists>res. fetch e (length (requests w) + 1) p = Responded res \<and> status res = 429"
    by (rule allE [where x = 1]) simp
  then obtain r1 where r1: "fetch e (length (requests w) + 1) p = Responded r1" "status r1 = 429"
    by auto
  from assms have "\<exists>res. fetch e (length (requests w) + 2) p = Responded res \<and> status res = 429"
    by (rule allE [where x = 2]) simp
  then obtain r2 where r2: "fetch e (length (requests w) + 2) p = Responded r2" "status r2 = 429"
    by auto
  define w1 where "w1 = w\<lparr>requests := requests w @ [p], slept := slept w @ [500]\<rparr>"
  define w2 where "w2 = w\<lparr>requests := requests w @ [p, p], slept := slept w @ [500, 1000]\<rparr>"
  define w3 where
    "w3 = w\<lparr>requests := requests w @ [p, p, p], slept := slept w @ [500, 1000, 2000]\<rparr>"
  have first: "get_from e p 0 lastErr w = get_from e p (Suc 0) (RateLimited p) w1" for lastErr
    using get_from_rate_limited [of 0 e w p r0 lastErr] r0
    by (simp add: MAX_RETRIES_def w1_def RETRY_BASE_MS_def)
  have second: "get_from e p (Suc 0) (RateLimited p) w1 = get_from e p (Suc (Suc 0)) (RateLimited p) w2"
    using get_from_rate_limited [of "Suc 0" e w1 p r1 "RateLimited p"] r1
    by (simp add: MAX_RETRIES_def w1_def w2_def RETRY_BASE_MS_def)
  have third:
    "get_from e p (Suc (Suc 0)) (RateLimited p) w2 = get_from e p (Suc (Suc (Suc 0))) (RateLimited p) w3"
    using get_from_rate_limited [of "Suc (Suc 0)" e w2 p r2 "RateLimited p"] r2
    by (simp add: MAX_RETRIES_def w2_def w3_def RETRY_BASE_MS_def)
  have last: "get_from e p (Suc (Suc (Suc 0))) (RateLimited p) w3 = (Inl (RateLimited p), w3)"
    using get_from_exhausted [of e p "RateLimited p" w3]
    by (simp add: MAX_RETRIES_def numeral_3_eq_3)
  show ?thesis
    unfolding get_def first second third last by (simp add: w3_def)
qed

theorem get_rate_limited_on_every_attempt_witness:
  "get always_429 app_7 world0 =
     (Inl (RateLimited app_7),
      world0\<lparr>requests := requests world0 @ [app_7, app_7, app_7],
             slept := slept world0 @ [500, 1000, 2000]\<rparr>)"
proof (rule get_rate_limited_on_every_attempt)
  show "\<forall>k<3. \<exists>res. fetch always_429 (length (requests world0) + k) app_7 = Responded res
          \<and> status res = 429"
    by (simp add: always_429_def backend_def answer_def)
qed

text \<open>
  Claim C3 as stated: the failure would be the one the loop starts from,
  \<open>Failed after 3 attempts: <path>\<close>. That error is overwritten at the first 429 and
  is not the one thrown.
\<close>

theorem get_rate_limited_is_not_failed_after:
  "fst (get always_429 app_7 world0) = Inl (RateLimited app_7) \<and>
   fst (get always_429 app_7 world0) \<noteq> Inl (FailedAfter MAX_RETRIES app_7)"
  by (simp add: get_def get_from.simps always_429_def backend_def answer_def MAX_RETRIES_def
      do_fetch_def world0_def sleep_def RETRY_BASE_MS_def)

section \<open>Properties of the response cap\<close>

text \<open>
  A bare list always passes through, whatever its length: \<open>data?.entries\<close> is then the
  inherited method, which is truthy, so neither \<open>data?.rows\<close> nor the
  \<open>Array.isArray\<close> branch is reached, and the method's \<open>length\<close> is 0.
\<close>

lemma truncateEntries_bare_list: "truncateEntries e (JArr xs) = Inr (JArr xs)"
  by (simp add: truncateEntries_def js_or_def)

lemma truncateEntries_entries_field:
  assumes "map_of kvs ''entries'' = Some (JArr xs)"
  shows "truncateEntries e (JObj kvs) =
     (if length xs \<le> MAX_ENTRIES then Inr (JObj kvs)
      else Inr (truncated (length xs) (JArr (take MAX_ENTRIES xs))))"
  using assms by (simp add: truncateEntries_def js_or_def)

lemma truncateEntries_rows_field:
  assumes "\<not> truthy (own (JObj kvs) ''entries'')"
    and "map_of kvs ''rows'' = Some (JArr xs)"
  shows "truncateEntries e (JObj kvs) =
     (if length xs \<le> MAX_ENTRIES then Inr (JObj kvs)
      else Inr (truncated (length xs) (JArr (take MAX_ENTRIES xs))))"
  using assms by (simp add: truncateEntries_def js_or_def opt_rows_def)

text \<open>
  Where \<open>entries\<close> is a plain object, its own \<open>length\<close> decides: the string \<open>10\<close>
  compares as the number 10 and the payload passes through; without a \<open>length\<close> the
  call of \<open>slice\<close> throws.
\<close>

lemma truncateEntries_object_with_length:
  "truncateEntries (backend f) (JObj [(''entries'', JObj [(''length'', JStr ''10'')])]) =
     Inr (JObj [(''entries'', JObj [(''length'', JStr ''10'')])])"
  "truncateEntries (backend f) (JObj [(''entries'', JObj [(''size'', JNum 10)])]) =
     Inl (TypeError ''entries.slice is not a function'')"
  by (simp_all add: truncateEntries_def js_or_def object_within_cap_def backend_def
      runtime_le_cap_def string_le_cap_def trim_def is_space_def prefixed_def
      unsigned_decimal_def is_digit_def digit_value_def exponent_part_def within_cap_def
      not_a_function_def Let_def)

text \<open>
  For a payload that is an object, the client finds the row collection the specification
  speaks of, and caps it as the specification says.
\<close>

lemma rows_field_Some: "rows_field kvs = Some xs \<Longrightarrow> map_of kvs ''rows'' = Some (JArr xs)"
  by (auto simp: rows_field_def split: option.splits json.splits)

lemma truncateEntries_object:
  assumes "row_collection (JObj kvs) = Some xs"
  shows "truncateEntries e (JObj kvs) =
     (if length xs \<le> MAX_ENTRIES then Inr (JObj kvs)
      else Inr (truncated (length xs) (JArr (take MAX_ENTRIES xs))))"
proof (cases "map_of kvs ''entries''")
  case None
  with assms have "map_of kvs ''rows'' = Some (JArr xs)"
    by (simp add: rows_field_Some)
  moreover from None have "\<not> truthy (own (JObj kvs) ''entries'')"
    by simp
  ultimately show ?thesis
    by (rule truncateEntries_rows_field [rotated])
next
  case (Some v)
  show ?thesis
  proof (cases "\<exists>ys. v = JArr ys")
    case True
    with Some assms have "map_of kvs ''entries'' = Some (JArr xs)"
      by auto
    then show ?thesis
      by (rule truncateEntries_entries_field)
  next
    case False
    with Some assms have falsy: "\<not> truthy (Json v)" and rows: "rows_field kvs = Some xs"
      by (auto split: json.splits if_splits)
    from falsy Some have "\<not> truthy (own (JObj kvs) ''entries'')"
      by simp
    moreover from rows have "map_of kvs ''rows'' = Some (JArr xs)"
      by (rule rows_field_Some)
    ultimately show ?thesis
      by (rule truncateEntries_rows_field)
  qed
qed

lemma truncated_fields:
  "own (truncated n sample) ''_truncated'' = Json (JBool True)"
  "own (truncated n sample) ''_totalCount'' = Json (JNum (int n))"
  "own (truncated n sample) ''_shownCount'' = Json (JNum 50)"
  "own (truncated n sample) ''entries'' = Json sample"
  by (simp_all add: truncated_def MAX_ENTRIES_def)

text \<open>
  Claim C8. Whenever the backend payload \<open>data\<close> has a row collection of at most 50
  entries (under \<open>entries\<close>, under \<open>rows\<close>, or as a bare list), \<open>getDataSourceEntries\<close>
  returns \<open>data\<close> itself.
\<close>

theorem getDataSourceEntries_passthrough:
  assumes "get e (V1DataSourceData ident) w = (Inr data, w')"
    and "row_collection data = Some xs"
    and "length xs \<le> MAX_ENTRIES"
  shows "getDataSourceEntries e ident w = (Inr data, w')"
proof -
  have "truncateEntries e data = Inr data"
  proof (cases data)
    case (JArr ys)
    then show ?thesis
      by (simp add: truncateEntries_bare_list)
  next
    case (JObj kvs)
    with assms(2,3) show ?thesis
      by (simp add: truncateEntries_object)
  qed (use assms(2) in simp_all)
  with assms(1) show ?thesis
    by (simp add: getDataSourceEntries_def)
qed

theorem getDataSourceEntries_passthrough_witness:
  "getDataSourceEntries wrapped_list_of_3 (Json (JNum 9)) world0 =
     (Inr three_rows, world0\<lparr>requests := [V1DataSourceData (Json (JNum 9))]\<rparr>)"
proof (rule getDataSourceEntries_passthrough)
  show "get wrapped_list_of_3 (V1DataSourceData (Json (JNum 9))) world0 =
     (Inr three_rows, world0\<lparr>requests := [V1DataSourceData (Json (JNum 9))]\<rparr>)"
    by (simp add: get_def get_from.simps wrapped_list_of_3_def backend_def answer_json_def
        MAX_RETRIES_def do_fetch_def world0_def ok_def)
  show "row_collection three_rows = Some [a_row, a_row, a_row]"
    by (simp add: three_rows_def)
  show "length [a_row, a_row, a_row] \<le> MAX_ENTRIES"
    by (simp add: MAX_ENTRIES_def)
qed

text \<open>
  Claim C2. The specification has every row listing of more than 50 entries replaced
  by the truncated payload. A data source whose 51 rows the backend sends as a bare
  list comes back whole: all 51 rows, no counts, no note.
\<close>

theorem getDataSourceEntries_keeps_bare_list_of_51:
  "getDataSourceEntries bare_list_of_51 (Json (JNum 9)) world0 =
     (Inr (JArr (replicate 51 a_row)), world0\<lparr>requests := [V1DataSourceData (Json (JNum 9))]\<rparr>)"
proof -
  have "get bare_list_of_51 (V1DataSourceData (Json (JNum 9))) world0 =
     (Inr (JArr (replicate 51 a_row)), world0\<lparr>requests := [V1DataSourceData (Json (JNum 9))]\<rparr>)"
    by (simp add: get_def get_from.simps bare_list_of_51_def backend_def answer_json_def
        MAX_RETRIES_def do_fetch_def world0_def ok_def)
  then show ?thesis
    by (simp add: getDataSourceEntries_def truncateEntries_bare_list)
qed

text \<open>
  The same rows under \<open>entries\<close> or \<open>rows\<close> are capped as the claim says: the count of
  all rows, 50 as the count shown, and the first 50 rows in their order.
\<close>

lemma getDataSourceEntries_caps_object:
  assumes "get e (V1DataSourceData ident) w = (Inr (JObj kvs), w')"
    and "row_collection (JObj kvs) = Some xs"
    and "MAX_ENTRIES < length xs"
  shows "getDataSourceEntries e ident w =
     (Inr (truncated (length xs) (JArr (take 50 xs))), w')"
  using assms by (simp add: getDataSourceEntries_def truncateEntries_object MAX_ENTRIES_def)

section \<open>Effects of the client and of the dispatcher\<close>

text \<open>
  The client makes no model call and emits no event, and what it does is independent
  of the events emitted before.
\<close>

lemma get_from_frame:
  "model_calls (snd (get_from e p attempt lastErr w)) = model_calls w \<and>
   events (snd (get_from e p attempt lastErr w)) = events w"
proof (induction e p attempt lastErr w rule: get_from.induct)
  case (1 e p attempt lastErr w)
  show ?case
  proof (cases "attempt < MAX_RETRIES")
    case False
    then show ?thesis
      by (subst (1 2) get_from.simps) simp
  next
    case True
    obtain r w1 where f: "do_fetch e p w = (r, w1)"
      by (cases "do_fetch e p w")
    then have w1: "model_calls w1 = model_calls w" "events w1 = events w"
      by (auto simp: do_fetch_def)
    show ?thesis
    proof (cases r)
      case (Rejected err)
      with 1(1) [OF True f [symmetric]] True f w1 show ?thesis
        by (subst (1 2) get_from.simps) (simp add: backoff_def sleep_def)
    next
      case (Responded res)
      with 1(2,3) [OF True f [symmetric]] True f w1 show ?thesis
        by (subst (1 2) get_from.simps) (simp add: backoff_def sleep_def)
    qed
  qed
qed

lemma get_from_events:
  "get_from e p attempt lastErr (w\<lparr>events := evs\<rparr>) =
     (fst (get_from e p attempt lastErr w), (snd (get_from e p attempt lastErr w))\<lparr>events := evs\<rparr>)"
proof (induction e p attempt lastErr w rule: get_from.induct)
  case (1 e p attempt lastErr w)
  show ?case
  proof (cases "attempt < MAX_RETRIES")
    case False
    then show ?thesis
      by (subst (1 2 3) get_from.simps) simp
  next
    case True
    obtain r w1 where f: "do_fetch e p w = (r, w1)"
      by (cases "do_fetch e p w")
    then have f': "do_fetch e p (w\<lparr>events := evs\<rparr>) = (r, w1\<lparr>events := evs\<rparr>)"
      by (auto simp: do_fetch_def)
    have b: "backoff a (v\<lparr>events := evs\<rparr>) = (backoff a v)\<lparr>events := evs\<rparr>" for a v
      by (simp add: backoff_def sleep_def)
    have s: "sleep a (v\<lparr>events := evs\<rparr>) = (sleep a v)\<lparr>events := evs\<rparr>" for a v
      by (simp add: sleep_def)
    show ?thesis
    proof (cases r)
      case (Rejected err)
      with 1(1) [OF True f [symmetric]] True f f' show ?thesis
        by (subst (1 2 3) get_from.simps) (simp add: b)
    next
      case (Responded res)
      with 1(2,3) [OF True f [symmetric]] True f f' show ?thesis
        by (subst (1 2 3) get_from.simps) (simp add: b s)
    qed
  qed
qed

lemma get_frame:
  "model_calls (snd (get e p w)) = model_calls w \<and> events (snd (get e p w)) = events w"
  by (simp add: get_def get_from_frame)

lemma get_events:
  "get e p (w\<lparr>events := evs\<rparr>) = (fst (get e p w), (snd (get e p w))\<lparr>events := evs\<rparr>)"
  by (simp add: get_def get_from_events)

lemma getDataSourceEntries_frame:
  "model_calls (snd (getDataSourceEntries e ident w)) = model_calls w \<and>
   events (snd (getDataSourceEntries e ident w)) = events w"
proof (cases "get e (V1DataSourceData ident) w")
  case (Pair r w1)
  with get_frame [of e "V1DataSourceData ident" w] show ?thesis
    by (cases r) (simp_all add: getDataSourceEntries_def)
qed

lemma getDataSourceEntries_events:
  "getDataSourceEntries e ident (w\<lparr>events := evs\<rparr>) =
     (fst (getDataSourceEntries e ident w), (snd (getDataSourceEntries e ident w))\<lparr>events := evs\<rparr>)"
proof (cases "get e (V1DataSourceData ident) w")
  case (Pair r w1)
  then show ?thesis
    by (cases r) (simp_all add: getDataSourceEntries_def get_events)
qed

lemmas accessor_defs =
  getApp_def listDataSources_def getDataSource_def listMediaFolders_def getFolderFiles_def
  getFile_def

lemma executeTool_frame:
  "model_calls (snd (executeTool e name input appId w)) = model_calls w \<and>
   events (snd (executeTool e name input appId w)) = events w"
  by (simp add: executeTool_def Let_def accessor_defs get_frame getDataSourceEntries_frame
      split: option.splits handler.splits)

lemma executeTool_events:
  "executeTool e name input appId (w\<lparr>events := evs\<rparr>) =
     (fst (executeTool e name input appId w), (snd (executeTool e name input appId w))\<lparr>events := evs\<rparr>)"
  by (simp add: executeTool_def Let_def accessor_defs get_events getDataSourceEntries_events
      split: option.splits handler.splits)

section \<open>The tool calls of a round\<close>

text \<open>The events the callback gets for the invocations of a response, in order.\<close>

lemma run_tools_append:
  "run_tools e onEvent bs (acc @ rs) w =
     (acc @ fst (run_tools e onEvent bs rs w), snd (run_tools e onEvent bs rs w))"
proof (induction bs arbitrary: rs w)
  case Nil
  show ?case by simp
next
  case (Cons b bs)
  show ?case
  proof (cases b)
    case (ToolUse ident name input)
    define w1 where "w1 = (if onEvent then emit (ToolStart name input) w else w)"
    obtain r w2 where x: "executeTool e name input (FLIPLET_APP_ID e) w1 = (r, w2)"
      by (cases "executeTool e name input (FLIPLET_APP_ID e) w1")
    show ?thesis
    proof (cases r)
      case (Inl err)
      with Cons [of "rs @ [ToolResult ident (OfError err) True]" w2] x ToolUse show ?thesis
        by (simp add: w1_def [symmetric])
    next
      case (Inr v)
      with Cons [of "rs @ [ToolResult ident (OfResult v) False]" w2] x ToolUse show ?thesis
        by (simp add: w1_def [symmetric])
    qed
  qed (use Cons in simp_all)
qed

lemma run_tools_from_empty:
  "run_tools e onEvent bs acc w =
     (acc @ fst (run_tools e onEvent bs [] w), snd (run_tools e onEvent bs [] w))"
  using run_tools_append [of e onEvent bs acc "[]" w] by simp

text \<open>
  One invocation: its result is appended, tagged by how \<open>executeTool\<close> ended, and the
  invocations after it are dispatched all the same.
\<close>

lemma run_tools_success:
  assumes "executeTool e name input (FLIPLET_APP_ID e)
             (if onEvent then emit (ToolStart name input) w else w) = (Inr v, w2)"
  shows "run_tools e onEvent (ToolUse ident name input # bs) acc w =
     run_tools e onEvent bs (acc @ [ToolResult ident (OfResult v) False]) w2"
  using assms by simp

lemma run_tools_failure:
  assumes "executeTool e name input (FLIPLET_APP_ID e)
             (if onEvent then emit (ToolStart name input) w else w) = (Inl err, w2)"
  shows "run_tools e onEvent (ToolUse ident name input # bs) acc w =
     run_tools e onEvent bs (acc @ [ToolResult ident (OfError err) True]) w2"
  using assms by simp

lemma run_tools_answers:
  "map result_id (fst (run_tools e onEvent bs [] w)) = map invocation_id (filter is_tool_use bs) \<and>
   list_all well_tagged (fst (run_tools e onEvent bs [] w))"
proof (induction bs arbitrary: w)
  case Nil
  show ?case by simp
next
  case (Cons b bs)
  show ?case
  proof (cases b)
    case (ToolUse ident name input)
    define w1 where "w1 = (if onEvent then emit (ToolStart name input) w else w)"
    obtain r w2 where x: "executeTool e name input (FLIPLET_APP_ID e) w1 = (r, w2)"
      by (cases "executeTool e name input (FLIPLET_APP_ID e) w1")
    show ?thesis
    proof (cases r)
      case (Inl err)
      with x have "run_tools e onEvent (b # bs) [] w =
          run_tools e onEvent bs ([] @ [ToolResult ident (OfError err) True]) w2"
        unfolding ToolUse w1_def by (intro run_tools_failure) simp
      with Cons [of w2] ToolUse show ?thesis
        by (simp add: run_tools_from_empty [of _ _ _ "[ToolResult ident (OfError err) True]"])
    next
      case (Inr v)
      with x have "run_tools e onEvent (b # bs) [] w =
          run_tools e onEvent bs ([] @ [ToolResult ident (OfResult v) False]) w2"
        unfolding ToolUse w1_def by (intro run_tools_success) simp
      with Cons [of w2] ToolUse show ?thesis
        by (simp add: run_tools_from_empty [of _ _ _ "[ToolResult ident (OfResult v) False]"])
    qed
  qed (use Cons in simp_all)
qed

lemma run_tools_frame:
  "model_calls (snd (run_tools e onEvent bs acc w)) = model_calls w"
proof (induction bs arbitrary: acc w)
  case Nil
  show ?case by simp
next
  case (Cons b bs)
  show ?case
  proof (cases b)
    case (ToolUse ident name input)
    define w1 where "w1 = (if onEvent then emit (ToolStart name input) w else w)"
    obtain r w2 where x: "executeTool e name input (FLIPLET_APP_ID e) w1 = (r, w2)"
      by (cases "executeTool e name input (FLIPLET_APP_ID e) w1")
    have "model_calls w2 = model_calls w1"
      using executeTool_frame [of e name input "FLIPLET_APP_ID e" w1] x by simp
    then have w2: "model_calls w2 = model_calls w"
      by (simp add: w1_def emit_def)
    show ?thesis
    proof (cases r)
      case (Inl err)
      with Cons [of "acc @ [ToolResult ident (OfError err) True]" w2] x w2 ToolUse show ?thesis
        by (simp add: w1_def [symmetric])
    next
      case (Inr v)
      with Cons [of "acc @ [ToolResult ident (OfResult v) False]" w2] x w2 ToolUse show ?thesis
        by (simp add: w1_def [symmetric])
    qed
  qed (use Cons in simp_all)
qed

section \<open>The rounds of the agent loop\<close>

lemma model_request_result:
  "fst (model_request e onEvent ms w) = model_response e onEvent (model_calls w) ms \<and>
   model_calls (snd (model_request e onEvent ms w)) = Suc (model_calls w) \<and>
   requests (snd (model_request e onEvent ms w)) = requests w"
  by (simp add: model_request_def model_response_def create_def streamedRequest_def Let_def)

lemma agentLoop_from_limit:
  assumes "\<not> rnd < MAX_TOOL_ROUNDS"
  shows "agentLoop_from e onEvent rnd ms w = (Inr (FALLBACK_REPLY, ms), w)"
  using assms by (subst agentLoop_from.simps) simp

lemma agentLoop_from_error:
  assumes "rnd < MAX_TOOL_ROUNDS" and "model_request e onEvent ms w = (Inl err, w1)"
  shows "agentLoop_from e onEvent rnd ms w = (Inl err, w1)"
  using assms by (subst agentLoop_from.simps) simp

lemma agentLoop_from_end_turn:
  assumes "rnd < MAX_TOOL_ROUNDS" and "model_request e onEvent ms w = (Inr resp, w1)"
    and "stop_reason resp = ''end_turn''"
  shows "agentLoop_from e onEvent rnd ms w =
     (Inr (reply_of resp, ms @ [assistant (response_content resp)]), w1)"
  using assms by (subst agentLoop_from.simps) simp

lemma agentLoop_from_tool_use:
  assumes "rnd < MAX_TOOL_ROUNDS" and "model_request e onEvent ms w = (Inr resp, w1)"
    and "stop_reason resp = ''tool_use''"
    and "run_tools e onEvent (filter is_tool_use (response_content resp)) [] w1 = (toolResults, w2)"
  shows "agentLoop_from e onEvent rnd ms w =
     agentLoop_from e onEvent (Suc rnd)
       (ms @ [assistant (response_content resp), user_blocks toolResults]) w2"
  using assms by (subst agentLoop_from.simps) simp

lemma agentLoop_from_other:
  assumes "rnd < MAX_TOOL_ROUNDS" and "model_request e onEvent ms w = (Inr resp, w1)"
    and "stop_reason resp \<noteq> ''end_turn''" and "stop_reason resp \<noteq> ''tool_use''"
  shows "agentLoop_from e onEvent rnd ms w =
     agentLoop_from e onEvent (Suc rnd) (ms @ [assistant (response_content resp)]) w1"
  using assms by (subst agentLoop_from.simps) simp


text \<open>
  Claim C5, as the code has it. In every round whose response has the stop reason
  \<open>tool_use\<close>, the loop goes on to the next round (and so to the next model call) with
  the conversation extended by the assistant message and exactly one user-role message
  of tool results: one result per invocation block of the response, in the same order,
  each with the identifier of its invocation, each tagged success or error. No model
  call is made in between.
\<close>

theorem tool_use_round_answers_every_invocation:
  assumes "rnd < MAX_TOOL_ROUNDS"
    and "model_request e onEvent ms w = (Inr resp, w1)"
    and "stop_reason resp = ''tool_use''"
  shows "case run_tools e onEvent (filter is_tool_use (response_content resp)) [] w1 of
           (toolResults, w2) \<Rightarrow>
             agentLoop_from e onEvent rnd ms w =
               agentLoop_from e onEvent (Suc rnd)
                 (ms @ [assistant (response_content resp), user_blocks toolResults]) w2 \<and>
             map result_id toolResults =
               map invocation_id (filter is_tool_use (response_content resp)) \<and>
             list_all well_tagged toolResults \<and>
             model_calls w2 = model_calls w1"
proof -
  obtain toolResults w2 where
    run: "run_tools e onEvent (filter is_tool_use (response_content resp)) [] w1 = (toolResults, w2)"
    by (cases "run_tools e onEvent (filter is_tool_use (response_content resp)) [] w1")
  from assms run have "agentLoop_from e onEvent rnd ms w =
      agentLoop_from e onEvent (Suc rnd)
        (ms @ [assistant (response_content resp), user_blocks toolResults]) w2"
    by (rule agentLoop_from_tool_use)
  moreover
  from run_tools_answers [of e onEvent "filter is_tool_use (response_content resp)" w1] run
  have "map result_id toolResults = map invocation_id (filter is_tool_use (response_content resp))"
    and "list_all well_tagged toolResults"
    by simp_all
  moreover
  from run_tools_frame [of e onEvent "filter is_tool_use (response_content resp)" "[]" w1] run
  have "model_calls w2 = model_calls w1"
    by simp
  ultimately show ?thesis
    using run by simp
qed

theorem tool_use_round_answers_every_invocation_witness:
  "case run_tools keeps_calling False
          (filter is_tool_use (response_content \<lparr>response_content = [app_info_call], stop_reason = ''tool_use''\<rparr>))
          [] (world0\<lparr>model_calls := 1\<rparr>) of
     (toolResults, w2) \<Rightarrow>
       agentLoop_from keeps_calling False 0 hello world0 =
         agentLoop_from keeps_calling False (Suc 0)
           (hello @ [assistant (response_content \<lparr>response_content = [app_info_call], stop_reason = ''tool_use''\<rparr>),
                     user_blocks toolResults]) w2 \<and>
       map result_id toolResults =
         map invocation_id (filter is_tool_use
           (response_content \<lparr>response_content = [app_info_call], stop_reason = ''tool_use''\<rparr>)) \<and>
       list_all well_tagged toolResults \<and>
       model_calls w2 = model_calls (world0\<lparr>model_calls := 1\<rparr>)"
proof (rule tool_use_round_answers_every_invocation)
  show "0 < MAX_TOOL_ROUNDS"
    by (simp add: MAX_TOOL_ROUNDS_def)
  show "model_request keeps_calling False hello world0 =
      (Inr \<lparr>response_content = [app_info_call], stop_reason = ''tool_use''\<rparr>, world0\<lparr>model_calls := 1\<rparr>)"
    by (simp add: model_request_def create_def keeps_calling_def scripted_def says_def world0_def)
  show "stop_reason \<lparr>response_content = [app_info_call], stop_reason = ''tool_use''\<rparr> = ''tool_use''"
    by simp
qed

text \<open>
  Claim C5 as stated speaks of every round whose response contains invocation blocks.
  In this run the first response holds a complete invocation and was cut at the token
  limit, so its stop reason is \<open>max_tokens\<close>: the loop appends the assistant message
  only and calls the model a second time, and the conversation it returns has no
  tool-result message for that invocation.
\<close>

theorem cut_off_invocation_is_not_answered:
  "agentLoop cut_off False hello world0 =
     (Inr (''Done.'',
           hello @ [assistant [TextBlock ''Let me look.'', app_info_call],
                    assistant [TextBlock ''Done.'']]),
      world0\<lparr>model_calls := 2\<rparr>)"
  by (simp add: agentLoop_def agentLoop_from.simps [of _ _ 0] agentLoop_from.simps [of _ _ "Suc 0"]
      MAX_TOOL_ROUNDS_def model_request_def create_def cut_off_def scripted_def says_def
      world0_def reply_of_def)




text \<open>
  A model that answers with a stop reason other than \<open>end_turn\<close> and \<open>tool_use\<close>
  whatever it is asked: each remaining round adds the assistant message and nothing
  else, no request goes to the backend, and the loop ends with the fallback reply.
\<close>

lemma other_rounds:
  assumes always: "\<forall>k ms. \<exists>resp. model_response e onEvent k ms = Inr resp \<and>
      stop_reason resp \<noteq> ''end_turn'' \<and> stop_reason resp \<noteq> ''tool_use''"
    and "n = MAX_TOOL_ROUNDS - rnd"
  shows "\<exists>added w'.
     agentLoop_from e onEvent rnd ms w = (Inr (FALLBACK_REPLY, ms @ added), w') \<and>
     length added = n \<and> list_all (\<lambda>m. role m = Assistant) added \<and>
     model_calls w' = model_calls w + n \<and> requests w' = requests w"
  using assms(2)
proof (induction n arbitrary: rnd ms w)
  case 0
  then have "\<not> rnd < MAX_TOOL_ROUNDS"
    by simp
  then have "agentLoop_from e onEvent rnd ms w = (Inr (FALLBACK_REPLY, ms @ []), w)"
    by (simp add: agentLoop_from_limit)
  then show ?case
    by (intro exI [where x = "[]"] exI [where x = w]) simp
next
  case (Suc n)
  then have rnd: "rnd < MAX_TOOL_ROUNDS" and n: "n = MAX_TOOL_ROUNDS - Suc rnd"
    by simp_all
  from always obtain resp where
    resp: "model_response e onEvent (model_calls w) ms = Inr resp"
      "stop_reason resp \<noteq> ''end_turn''" "stop_reason resp \<noteq> ''tool_use''"
    by blast
  obtain w1 where req: "model_request e onEvent ms w = (Inr resp, w1)"
    and w1: "model_calls w1 = Suc (model_calls w)" "requests w1 = requests w"
    using model_request_result [of e onEvent ms w] resp(1)
    by (cases "model_request e onEvent ms w") simp
  let ?a = "assistant (response_content resp)"
  have step: "agentLoop_from e onEvent rnd ms w = agentLoop_from e onEvent (Suc rnd) (ms @ [?a]) w1"
    using rnd req resp(2,3) by (rule agentLoop_from_other)
  from Suc.IH [OF n, of "ms @ [?a]" w1] obtain added w' where
    rest: "agentLoop_from e onEvent (Suc rnd) (ms @ [?a]) w1 = (Inr (FALLBACK_REPLY, (ms @ [?a]) @ added), w')"
      "length added = n" "list_all (\<lambda>m. role m = Assistant) added"
      "model_calls w' = model_calls w1 + n" "requests w' = requests w1"
    by blast
  show ?case
  proof (intro exI conjI)
    show "agentLoop_from e onEvent rnd ms w = (Inr (FALLBACK_REPLY, ms @ (?a # added)), w')"
      using step rest(1) by simp
    show "length (?a # added) = Suc n"
      using rest(2) by simp
    show "list_all (\<lambda>m. role m = Assistant) (?a # added)"
      using rest(3) by (simp add: assistant_def)
    show "model_calls w' = model_calls w + Suc n"
      using rest(4) w1 by simp
    show "requests w' = requests w"
      using rest(5) w1 by simp
  qed
qed

text \<open>
  Claim C10. A response whose stop reason is neither \<open>end_turn\<close> nor \<open>tool_use\<close> makes
  the loop append the assistant message, and nothing else, and go on to the next round
  from the world the model call left: no tool is dispatched and no reply is produced.
  When every response is of that kind, the turn ends after 10 model calls with the
  fallback reply, the conversation extended by 10 assistant messages, and no request
  made to the backend.
\<close>

theorem other_stop_reason_skips_to_next_round:
  "(rnd < MAX_TOOL_ROUNDS \<and> model_request e onEvent ms w = (Inr resp, w1) \<and>
    stop_reason resp \<noteq> ''end_turn'' \<and> stop_reason resp \<noteq> ''tool_use'' \<longrightarrow>
      agentLoop_from e onEvent rnd ms w =
        agentLoop_from e onEvent (Suc rnd) (ms @ [assistant (response_content resp)]) w1) \<and>
   ((\<forall>k ms. \<exists>resp. model_response e onEvent k ms = Inr resp \<and>
        stop_reason resp \<noteq> ''end_turn'' \<and> stop_reason resp \<noteq> ''tool_use'') \<longrightarrow>
      (\<exists>added w'.
         agentLoop e onEvent ms w =
           (Inr (''Hit the tool-call limit. Try a more specific question.'', ms @ added), w') \<and>
         length added = 10 \<and> list_all (\<lambda>m. role m = Assistant) added \<and>
         model_calls w' = model_calls w + 10 \<and> requests w' = requests w))"
proof (intro conjI impI)
  assume "rnd < MAX_TOOL_ROUNDS \<and> model_request e onEvent ms w = (Inr resp, w1) \<and>
    stop_reason resp \<noteq> ''end_turn'' \<and> stop_reason resp \<noteq> ''tool_use''"
  then show "agentLoop_from e onEvent rnd ms w =
      agentLoop_from e onEvent (Suc rnd) (ms @ [assistant (response_content resp)]) w1"
    by (intro agentLoop_from_other) simp_all
next
  assume "\<forall>k ms. \<exists>resp. model_response e onEvent k ms = Inr resp \<and>
      stop_reason resp \<noteq> ''end_turn'' \<and> stop_reason resp \<noteq> ''tool_use''"
  from other_rounds [OF this, where n = 10 and rnd = 0 and ms = ms and w = w]
  show "\<exists>added w'.
      agentLoop e onEvent ms w =
        (Inr (''Hit the tool-call limit. Try a more specific question.'', ms @ added), w') \<and>
      length added = 10 \<and> list_all (\<lambda>m. role m = Assistant) added \<and>
      model_calls w' = model_calls w + 10 \<and> requests w' = requests w"
    by (simp add: agentLoop_def MAX_TOOL_ROUNDS_def FALLBACK_REPLY_def)
qed

theorem other_stop_reason_skips_to_next_round_witness:
  "agentLoop_from keeps_running_out False 0 hello world0 =
     agentLoop_from keeps_running_out False (Suc 0)
       (hello @ [assistant (response_content
          \<lparr>response_content = [TextBlock ''The app has''], stop_reason = ''max_tokens''\<rparr>)])
       (world0\<lparr>model_calls := 1\<rparr>) \<and>
   (\<exists>added w'.
      agentLoop keeps_running_out False hello world0 =
        (Inr (''Hit the tool-call limit. Try a more specific question.'', hello @ added), w') \<and>
      length added = 10 \<and> list_all (\<lambda>m. role m = Assistant) added \<and>
      model_calls w' = model_calls world0 + 10 \<and> requests w' = requests world0)"
proof -
  let ?resp = "\<lparr>response_content = [TextBlock ''The app has''], stop_reason = ''max_tokens''\<rparr>"
  have one: "0 < MAX_TOOL_ROUNDS \<and>
      model_request keeps_running_out False hello world0 = (Inr ?resp, world0\<lparr>model_calls := 1\<rparr>) \<and>
      stop_reason ?resp \<noteq> ''end_turn'' \<and> stop_reason ?resp \<noteq> ''tool_use''"
    by (simp add: MAX_TOOL_ROUNDS_def model_request_def create_def keeps_running_out_def
        scripted_def says_def world0_def)
  have all: "\<forall>k ms. \<exists>resp. model_response keeps_running_out False k ms = Inr resp \<and>
      stop_reason resp \<noteq> ''end_turn'' \<and> stop_reason resp \<noteq> ''tool_use''"
    by (simp add: model_response_def keeps_running_out_def scripted_def says_def)
  from other_stop_reason_skips_to_next_round
    [of 0 keeps_running_out False hello world0 ?resp "world0\<lparr>model_calls := 1\<rparr>"] one all
  show ?thesis
    by blast
qed

section \<open>Streaming and blocking mode\<close>

text \<open>
  With the callback, the tool calls of a round do what they do without it, and the
  callback gets one \<open>tool_start\<close> event per invocation.
\<close>

lemma run_tools_streamed:
  "run_tools e True bs acc (w\<lparr>events := evs\<rparr>) =
     (fst (run_tools e False bs acc w),
      (snd (run_tools e False bs acc w))\<lparr>events := evs @ tool_starts bs\<rparr>)"
proof (induction bs arbitrary: acc w evs)
  case Nil
  show ?case by simp
next
  case (Cons b bs)
  show ?case
  proof (cases b)
    case (ToolUse ident name input)
    obtain r w2 where x: "executeTool e name input (FLIPLET_APP_ID e) w = (r, w2)"
      by (cases "executeTool e name input (FLIPLET_APP_ID e) w")
    let ?evs = "evs @ [ToolStart name input]"
    have x': "executeTool e name input (FLIPLET_APP_ID e) (emit (ToolStart name input) (w\<lparr>events := evs\<rparr>)) =
        (r, w2\<lparr>events := ?evs\<rparr>)"
      using executeTool_events [where e = e and name = name and input = input and appId = "FLIPLET_APP_ID e" and w = w and evs = ?evs] x
      by (simp add: emit_def)
    show ?thesis
    proof (cases r)
      case (Inl err)
      with Cons [where acc = "acc @ [ToolResult ident (OfError err) True]" and w = w2 and evs = ?evs] x x' ToolUse
      show ?thesis by simp
    next
      case (Inr v)
      with Cons [where acc = "acc @ [ToolResult ident (OfResult v) False]" and w = w2 and evs = ?evs] x x' ToolUse
      show ?thesis by simp
    qed
  qed (use Cons in simp_all)
qed

lemma run_tools_blocking_events: "events (snd (run_tools e False bs acc w)) = events w"
proof (induction bs arbitrary: acc w)
  case Nil
  show ?case by simp
next
  case (Cons b bs)
  show ?case
  proof (cases b)
    case (ToolUse ident name input)
    obtain r w2 where x: "executeTool e name input (FLIPLET_APP_ID e) w = (r, w2)"
      by (cases "executeTool e name input (FLIPLET_APP_ID e) w")
    have w2: "events w2 = events w"
      using executeTool_frame [of e name input "FLIPLET_APP_ID e" w] x by simp
    show ?thesis
    proof (cases r)
      case (Inl err)
      with Cons [of "acc @ [ToolResult ident (OfError err) True]" w2] x w2 ToolUse
      show ?thesis by simp
    next
      case (Inr v)
      with Cons [of "acc @ [ToolResult ident (OfResult v) False]" w2] x w2 ToolUse
      show ?thesis by simp
    qed
  qed (use Cons in simp_all)
qed

text \<open>The streamed request returns what the plain request returns, after the text events.\<close>

lemma model_request_streamed:
  assumes "final (messages_stream e (model_calls w) ms) = messages_create e (model_calls w) ms"
  shows "model_request e True ms (w\<lparr>events := evs\<rparr>) =
     (fst (model_request e False ms w),
      (snd (model_request e False ms w))
        \<lparr>events := evs @ map TextDelta (fragments (messages_stream e (model_calls w) ms))\<rparr>)"
  using assms by (simp add: model_request_def create_def streamedRequest_def Let_def)

lemma model_request_blocking_events: "events (snd (model_request e False ms w)) = events w"
  by (simp add: model_request_def create_def)

text \<open>
  When the stream of every model call ends with the message the plain call returns, the
  loop with the callback, started after any events, ends as the loop without it does,
  in a world that differs only by events added.
\<close>

lemma agentLoop_from_streamed:
  assumes agree: "\<forall>k ms. final (messages_stream e k ms) = messages_create e k ms"
    and "n = MAX_TOOL_ROUNDS - rnd"
  shows "\<exists>more.
     agentLoop_from e True rnd ms (w\<lparr>events := evs\<rparr>) =
       (fst (agentLoop_from e False rnd ms w),
        (snd (agentLoop_from e False rnd ms w))\<lparr>events := evs @ more\<rparr>)"
  using assms(2)
proof (induction n arbitrary: rnd ms w evs)
  case 0
  then have "\<not> rnd < MAX_TOOL_ROUNDS"
    by simp
  then show ?case
    by (intro exI [where x = "[]"]) (simp add: agentLoop_from_limit)
next
  case (Suc n)
  then have rnd: "rnd < MAX_TOOL_ROUNDS" and n: "n = MAX_TOOL_ROUNDS - Suc rnd"
    by simp_all
  obtain r w1 where req: "model_request e False ms w = (r, w1)"
    by (cases "model_request e False ms w")
  let ?evs1 = "evs @ map TextDelta (fragments (messages_stream e (model_calls w) ms))"
  have req': "model_request e True ms (w\<lparr>events := evs\<rparr>) = (r, w1\<lparr>events := ?evs1\<rparr>)"
    using model_request_streamed [where e = e and ms = ms and w = w and evs = evs] agree req
    by simp
  show ?case
  proof (cases r)
    case (Inl err)
    with rnd req req' show ?thesis
      by (intro exI [where x = "map TextDelta (fragments (messages_stream e (model_calls w) ms))"])
         (simp add: agentLoop_from_error)
  next
    case (Inr resp)
    consider (finished) "stop_reason resp = ''end_turn''"
      | (tools) "stop_reason resp \<noteq> ''end_turn''" "stop_reason resp = ''tool_use''"
      | (other) "stop_reason resp \<noteq> ''end_turn''" "stop_reason resp \<noteq> ''tool_use''"
      by blast
    then show ?thesis
    proof cases
      case finished
      with finished rnd req req' Inr show ?thesis
        by (intro exI [where x = "map TextDelta (fragments (messages_stream e (model_calls w) ms))"])
           (simp add: agentLoop_from_end_turn)
    next
      case tools
      let ?bs = "filter is_tool_use (response_content resp)"
      obtain toolResults w2 where run: "run_tools e False ?bs [] w1 = (toolResults, w2)"
        by (cases "run_tools e False ?bs [] w1")
      let ?evs2 = "?evs1 @ tool_starts ?bs"
      have run': "run_tools e True ?bs [] (w1\<lparr>events := ?evs1\<rparr>) = (toolResults, w2\<lparr>events := ?evs2\<rparr>)"
        using run_tools_streamed [where e = e and bs = ?bs and acc = "[]" and w = w1 and evs = ?evs1] run by simp
      let ?ms = "ms @ [assistant (response_content resp), user_blocks toolResults]"
      have b: "agentLoop_from e False rnd ms w = agentLoop_from e False (Suc rnd) ?ms w2"
        using rnd req tools(2) run unfolding Inr by (rule agentLoop_from_tool_use)
      have s: "agentLoop_from e True rnd ms (w\<lparr>events := evs\<rparr>) =
          agentLoop_from e True (Suc rnd) ?ms (w2\<lparr>events := ?evs2\<rparr>)"
        using rnd req' tools(2) run' unfolding Inr by (rule agentLoop_from_tool_use)
      from Suc.IH [OF n, where ms = ?ms and w = w2 and evs = ?evs2] obtain more where
        "agentLoop_from e True (Suc rnd) ?ms (w2\<lparr>events := ?evs2\<rparr>) =
           (fst (agentLoop_from e False (Suc rnd) ?ms w2),
            (snd (agentLoop_from e False (Suc rnd) ?ms w2))\<lparr>events := ?evs2 @ more\<rparr>)"
        by blast
      with b s show ?thesis
        by (intro exI [where x = "map TextDelta (fragments (messages_stream e (model_calls w) ms)) @ tool_starts ?bs @ more"])
           simp
    next
      case other
      let ?ms = "ms @ [assistant (response_content resp)]"
      have b: "agentLoop_from e False rnd ms w = agentLoop_from e False (Suc rnd) ?ms w1"
        using rnd req other unfolding Inr by (rule agentLoop_from_other)
      have s: "agentLoop_from e True rnd ms (w\<lparr>events := evs\<rparr>) =
          agentLoop_from e True (Suc rnd) ?ms (w1\<lparr>events := ?evs1\<rparr>)"
        using rnd req' other unfolding Inr by (rule agentLoop_from_other)
      from Suc.IH [OF n, where ms = ?ms and w = w1 and evs = ?evs1] obtain more where
        "agentLoop_from e True (Suc rnd) ?ms (w1\<lparr>events := ?evs1\<rparr>) =
           (fst (agentLoop_from e False (Suc rnd) ?ms w1),
            (snd (agentLoop_from e False (Suc rnd) ?ms w1))\<lparr>events := ?evs1 @ more\<rparr>)"
        by blast
      with b s show ?thesis
        by (intro exI [where x = "map TextDelta (fragments (messages_stream e (model_calls w) ms)) @ more"])
           simp
    qed
  qed
qed

lemma agentLoop_from_blocking_events:
  assumes "n = MAX_TOOL_ROUNDS - rnd"
  shows "events (snd (agentLoop_from e False rnd ms w)) = events w"
  using assms
proof (induction n arbitrary: rnd ms w)
  case 0
  then have "\<not> rnd < MAX_TOOL_ROUNDS"
    by simp
  then show ?case
    by (simp add: agentLoop_from_limit)
next
  case (Suc n)
  then have rnd: "rnd < MAX_TOOL_ROUNDS" and n: "n = MAX_TOOL_ROUNDS - Suc rnd"
    by simp_all
  obtain r w1 where req: "model_request e False ms w = (r, w1)"
    by (cases "model_request e False ms w")
  then have w1: "events w1 = events w"
    using model_request_blocking_events [of e ms w] by simp
  show ?case
  proof (cases r)
    case (Inl err)
    with rnd req w1 show ?thesis
      by (simp add: agentLoop_from_error)
  next
    case (Inr resp)
    consider (finished) "stop_reason resp = ''end_turn''"
      | (tools) "stop_reason resp \<noteq> ''end_turn''" "stop_reason resp = ''tool_use''"
      | (other) "stop_reason resp \<noteq> ''end_turn''" "stop_reason resp \<noteq> ''tool_use''"
      by blast
    then show ?thesis
    proof cases
      case finished
      with finished rnd req w1 Inr show ?thesis
        by (simp add: agentLoop_from_end_turn)
    next
      case tools
      let ?bs = "filter is_tool_use (response_content resp)"
      obtain toolResults w2 where run: "run_tools e False ?bs [] w1 = (toolResults, w2)"
        by (cases "run_tools e False ?bs [] w1")
      then have w2: "events w2 = events w"
        using run_tools_blocking_events [of e ?bs "[]" w1] w1 by simp
      have "agentLoop_from e False rnd ms w =
          agentLoop_from e False (Suc rnd)
            (ms @ [assistant (response_content resp), user_blocks toolResults]) w2"
        using rnd req tools(2) run unfolding Inr by (rule agentLoop_from_tool_use)
      with Suc.IH [OF n] w2 show ?thesis
        by simp
    next
      case other
      have "agentLoop_from e False rnd ms w =
          agentLoop_from e False (Suc rnd) (ms @ [assistant (response_content resp)]) w1"
        using rnd req other unfolding Inr by (rule agentLoop_from_other)
      with Suc.IH [OF n] w1 show ?thesis
        by simp
    qed
  qed
qed

text \<open>What a handler sends is read off the outcome of the loop alone.\<close>

lemma chat_turn_outcome:
  "fst (chat_turn e streaming msg history w) =
     (if msg = [] then BadRequest
      else case fst (agentLoop e streaming (trimHistory (history @ [user_text msg])) w) of
             Inl err \<Rightarrow> Failed err
           | Inr (reply, updatedMessages) \<Rightarrow> Answer reply updatedMessages)"
proof (cases "agentLoop e streaming (trimHistory (history @ [user_text msg])) w")
  case (Pair r w1)
  then show ?thesis
    by (cases r) (auto simp: chat_turn_def)
qed

text \<open>
  Claim C9. When the two modes are driven by the same model responses (the stream of
  each model call ends with the message the plain call returns) and the same backend
  answers, the agent loop with the streaming callback ends with the same outcome as
  the loop without it: the same \<open>{reply, updatedMessages}\<close> pair, or the same error. So the \<open>done\<close> event of
  \<open>/api/chat/stream\<close> carries what \<open>/api/chat\<close> answers. The blocking loop emits no
  event; the streaming loop leaves a world that differs from the blocking one only by
  the \<open>text_delta\<close> and \<open>tool_start\<close> events added.
\<close>

theorem streaming_ends_as_blocking:
  assumes "\<forall>k ms. final (messages_stream e k ms) = messages_create e k ms"
  shows "fst (agentLoop e True ms w) = fst (agentLoop e False ms w) \<and>
   fst (post_api_chat_stream e msg history w) = fst (post_api_chat e msg history w) \<and>
   events (snd (agentLoop e False ms w)) = events w \<and>
   (\<exists>more. snd (agentLoop e True ms w) =
      (snd (agentLoop e False ms w))\<lparr>events := events w @ more\<rparr>)"
proof -
  have same: "\<exists>more. agentLoop e True ms' w =
      (fst (agentLoop e False ms' w), (snd (agentLoop e False ms' w))\<lparr>events := events w @ more\<rparr>)"
    for ms'
    using agentLoop_from_streamed
      [OF assms, where n = MAX_TOOL_ROUNDS and rnd = 0 and ms = ms' and w = w and evs = "events w"]
    by (simp add: agentLoop_def)
  have "fst (agentLoop e True ms' w) = fst (agentLoop e False ms' w)" for ms'
    using same [of ms'] by auto
  then have "fst (post_api_chat_stream e msg history w) = fst (post_api_chat e msg history w)"
    by (simp add: post_api_chat_stream_def post_api_chat_def chat_turn_outcome)
  moreover have "events (snd (agentLoop e False ms w)) = events w"
    using agentLoop_from_blocking_events
      [where n = MAX_TOOL_ROUNDS and rnd = 0 and e = e and ms = ms and w = w]
    by (simp add: agentLoop_def)
  moreover from same [of ms] have "fst (agentLoop e True ms w) = fst (agentLoop e False ms w)"
    and "\<exists>more. snd (agentLoop e True ms w) =
      (snd (agentLoop e False ms w))\<lparr>events := events w @ more\<rparr>"
    by auto
  ultimately show ?thesis
    by blast
qed

theorem streaming_ends_as_blocking_witness:
  "fst (agentLoop keeps_calling True hello world0) = fst (agentLoop keeps_calling False hello world0) \<and>
   fst (post_api_chat_stream keeps_calling ''Thanks'' hello world0) =
     fst (post_api_chat keeps_calling ''Thanks'' hello world0) \<and>
   events (snd (agentLoop keeps_calling False hello world0)) = events world0 \<and>
   (\<exists>more. snd (agentLoop keeps_calling True hello world0) =
      (snd (agentLoop keeps_calling False hello world0))\<lparr>events := events world0 @ more\<rparr>)"
proof (rule streaming_ends_as_blocking)
  show "\<forall>k ms. final (messages_stream keeps_calling k ms) = messages_create keeps_calling k ms"
    by (simp add: keeps_calling_def scripted_def)
qed

section \<open>Dispatch of unknown names\<close>

text \<open>
  A name that is neither a tool nor a member of \<open>Object.prototype\<close> is refused, and the
  refusal becomes an error-tagged result; the next invocation is dispatched.
\<close>

lemma routes_refuses:
  "routes name = None \<longleftrightarrow> name \<notin> set tool_names \<and> name \<notin> set object_prototype_names"
  by (simp add: routes_def tool_names_def)

lemma routes_inherited:
  assumes "name \<in> set object_prototype_names"
  shows "routes name = Some (ObjectPrototype name)"
  using assms by (auto simp: routes_def object_prototype_names_def)

lemma executeTool_unknown:
  assumes "routes name = None" and "input \<noteq> JNull"
  shows "executeTool e name input appId w = (Inl (UnknownTool name), w)"
  using assms by (simp add: executeTool_def)

lemma run_tools_unknown:
  assumes "routes name = None" and "input \<noteq> JNull"
  shows "run_tools e False (ToolUse ident name input # bs) acc w =
     run_tools e False bs (acc @ [ToolResult ident (OfError (UnknownTool name)) True]) w"
  using assms by (simp add: executeTool_unknown)

text \<open>
  Claim C7. The specification has every name outside the catalog end as an
  error-tagged result. \<open>routes[name]\<close> also finds the members the object literal
  inherits, so the name \<open>constructor\<close> is dispatched to \<open>Object\<close>: the call returns an
  empty object and the result is tagged as a success. The unknown name in the same
  batch is refused, as an error-tagged result with the failure message, and neither
  invocation keeps the other from its result.
\<close>

theorem constructor_is_dispatched:
  "run_tools keeps_calling False two_strangers [] world0 =
     ([ToolResult ''toolu_01'' (OfResult (JObj [])) False,
       ToolResult ''toolu_02'' (OfError (UnknownTool ''delete_app'')) True],
      world0)"
  by (simp add: two_strangers_def executeTool_def routes_def object_prototype_names_def
      call_inherited_def)

section \<open>Trimming\<close>

lemma trimHistory_short:
  "length ms \<le> MAX_HISTORY_MESSAGES \<Longrightarrow> trimHistory ms = ms"
  by (simp add: trimHistory_def)

lemma trimHistory_long:
  "MAX_HISTORY_MESSAGES < length ms \<Longrightarrow>
     trimHistory ms = drop (length ms - MAX_HISTORY_MESSAGES) ms \<and>
     length (trimHistory ms) = MAX_HISTORY_MESSAGES"
  by (simp add: trimHistory_def)


end
